(* ===== verification/Prelude.thy ===== *)
theory Prelude
  imports Main "HOL-Library.Word" "HOL-Library.Sublist"
begin

text \<open>
  Shared vocabulary of the ETF codec model: bytes and streams, the stream-reader
  combinators that every decoding function is written with, the big-endian length
  fields and the little-endian bignum digits of the wire format, and the conversion
  between Go strings and bytes. Nothing here is specific to one component.
\<close>

section \<open>Bytes and streams\<close>

type_synonym byte = "8 word"

text \<open>
  The \<open>io.Reader\<close> the decoder consumes is modelled by the list of bytes it has
  still to deliver. A reader returns its result (an error or a value) together with
  what is left of the stream, exactly as a Go function that reads from \<open>r\<close> and
  returns \<open>(value, err)\<close> leaves \<open>r\<close> advanced.
\<close>

type_synonym stream = "byte list"

type_synonym ('e, 'a) rd = "stream \<Rightarrow> ('e + 'a) \<times> stream"

named_theorems rd_simps "equations of the stream-reader combinators"

definition ok :: "'a \<Rightarrow> ('e, 'a) rd" where
  "ok a s = (Inr a, s)"

definition fail :: "'e \<Rightarrow> ('e, 'a) rd" where
  "fail e s = (Inl e, s)"

definition bind_rd :: "('e, 'a) rd \<Rightarrow> ('a \<Rightarrow> ('e, 'b) rd) \<Rightarrow> ('e, 'b) rd" where
  "bind_rd m f s = (case m s of (Inl e, s') \<Rightarrow> (Inl e, s') | (Inr a, s') \<Rightarrow> f a s')"

definition map_rd :: "('a \<Rightarrow> 'b) \<Rightarrow> ('e, 'a) rd \<Rightarrow> ('e, 'b) rd" where
  "map_rd f m = bind_rd m (\<lambda>a. ok (f a))"

text \<open>
  A reader \<^emph>\<open>moves forward\<close> when what it leaves of the stream is a suffix of what it
  was given: it never pushes bytes back. Every Go reader of the codec has this
  property, and the decoder inherits it.
\<close>

definition forward :: "('e, 'a) rd \<Rightarrow> bool" where
  "forward m \<longleftrightarrow> (\<forall>s. suffix (snd (m s)) s)"

section \<open>Fixed-width big-endian fields\<close>

text \<open>
  Every length, arity and fixed-width integer of the wire format is big-endian
  (\<open>binary.BigEndian\<close> in Go). \<open>be_nat\<close> reads a byte string as an unsigned number;
  \<open>nat_be n x\<close> writes the low \<open>n\<close> bytes of \<open>x\<close>.
\<close>

definition be_nat :: "byte list \<Rightarrow> nat" where
  "be_nat bs = foldl (\<lambda>acc b. acc * 256 + unat b) 0 bs"

fun nat_be :: "nat \<Rightarrow> nat \<Rightarrow> byte list" where
  "nat_be 0 x = []"
| "nat_be (Suc n) x = nat_be n (x div 256) @ [of_nat (x mod 256)]"

section \<open>Little-endian digit strings\<close>

text \<open>
  The magnitude of an ETF bignum is a little-endian sequence of base-256 digits.
  \<open>nat_le\<close> writes the minimal such sequence (no most significant zero digit).
\<close>

fun le_nat :: "byte list \<Rightarrow> nat" where
  "le_nat [] = 0"
| "le_nat (d # ds) = unat d + 256 * le_nat ds"

fun nat_le :: "nat \<Rightarrow> byte list" where
  "nat_le x = (if x = 0 then [] else of_nat (x mod 256) # nat_le (x div 256))"

declare nat_le.simps [simp del]

section \<open>Go strings as bytes\<close>

text \<open>
  A Go string is a sequence of bytes; an Isabelle \<^typ>\<open>char\<close> is one byte, so the
  model keeps strings as \<^typ>\<open>string\<close> and converts at the wire.
\<close>

definition bytes_of :: "string \<Rightarrow> byte list" where
  "bytes_of str = map (\<lambda>c. of_nat (of_char c)) str"

definition string_of :: "byte list \<Rightarrow> string" where
  "string_of bs = map (\<lambda>b. char_of (unat b)) bs"

text \<open>
  A sequence of fallible results, as a Go loop that stops at the first \<open>err != nil\<close>:
  the first error, or the concatenation of all outputs.
\<close>

fun concat_res :: "('e + 'a list) list \<Rightarrow> 'e + 'a list" where
  "concat_res [] = Inr []"
| "concat_res (r # rs) =
     (case r of Inl e \<Rightarrow> Inl e | Inr xs \<Rightarrow> (case concat_res rs of Inl e \<Rightarrow> Inl e | Inr ys \<Rightarrow> Inr (xs @ ys)))"

section \<open>Lemmas\<close>

lemma ok_apply [rd_simps, simp]: "ok a s = (Inr a, s)"
  by (simp add: ok_def)

lemma fail_apply [rd_simps, simp]: "fail e s = (Inl e, s)"
  by (simp add: fail_def)

lemma bind_rd_Inr [rd_simps]: "m s = (Inr a, s') \<Longrightarrow> bind_rd m f s = f a s'"
  by (simp add: bind_rd_def)

lemma bind_rd_Inl [rd_simps]: "m s = (Inl e, s') \<Longrightarrow> bind_rd m f s = (Inl e, s')"
  by (simp add: bind_rd_def)

lemma map_rd_Inr [rd_simps]: "m s = (Inr a, s') \<Longrightarrow> map_rd f m s = (Inr (f a), s')"
  by (simp add: map_rd_def bind_rd_def)

lemma map_rd_Inl [rd_simps]: "m s = (Inl e, s') \<Longrightarrow> map_rd f m s = (Inl e, s')"
  by (simp add: map_rd_def bind_rd_def)

lemmas rd_defs = bind_rd_def map_rd_def ok_def fail_def

lemma bind_rd_split:
  "P (bind_rd m f s) \<longleftrightarrow>
     (\<forall>e s'. m s = (Inl e, s') \<longrightarrow> P (Inl e, s')) \<and> (\<forall>a s'. m s = (Inr a, s') \<longrightarrow> P (f a s'))"
  by (auto simp: bind_rd_def split: prod.split sum.split)

lemma bind_rd_split_asm:
  "P (bind_rd m f s) \<longleftrightarrow>
     \<not> ((\<exists>e s'. m s = (Inl e, s') \<and> \<not> P (Inl e, s')) \<or> (\<exists>a s'. m s = (Inr a, s') \<and> \<not> P (f a s')))"
  by (auto simp: bind_rd_def split: prod.split sum.split)

lemmas bind_rd_splits = bind_rd_split bind_rd_split_asm

lemma forwardD: "forward m \<Longrightarrow> m s = (r, s') \<Longrightarrow> suffix s' s"
  unfolding forward_def by (metis snd_conv)

lemma forward_ok [intro]: "forward (ok a)"
  by (simp add: forward_def)

lemma forward_fail [intro]: "forward (fail e)"
  by (simp add: forward_def)

lemma forward_bind [intro]:
  assumes "forward m" and "\<And>a. forward (f a)"
  shows "forward (bind_rd m f)"
  unfolding forward_def
proof
  fix s
  show "suffix (snd (bind_rd m f s)) s"
  proof (cases "m s")
    case (Pair r s')
    with assms(1) have s': "suffix s' s" by (rule forwardD)
    show ?thesis
    proof (cases r)
      case (Inl e)
      with Pair s' show ?thesis by (simp add: bind_rd_def)
    next
      case (Inr a)
      have "suffix (snd (f a s')) s'" using assms(2) by (simp add: forward_def)
      with Pair Inr s' show ?thesis by (auto simp: bind_rd_def intro: suffix_order.trans)
    qed
  qed
qed

lemma forward_if [intro]: "forward a \<Longrightarrow> forward b \<Longrightarrow> forward (if c then a else b)"
  by simp

lemma forward_map [intro]: "forward m \<Longrightarrow> forward (map_rd f m)"
  unfolding map_rd_def by (rule forward_bind) auto

lemma unat_byte_less [simp]: "unat (b :: byte) < 256"
  using unsigned_less [of b] by simp

lemma unat_of_nat_byte [simp]: "unat (of_nat (x mod 256) :: byte) = x mod 256"
  by (simp add: unat_of_nat)

lemma unat_of_nat_byte_less [simp]: "x < 256 \<Longrightarrow> unat (of_nat x :: byte) = x"
  by (simp add: unat_of_nat)

lemma be_nat_Nil [simp]: "be_nat [] = 0"
  by (simp add: be_nat_def)

lemma be_nat_snoc [simp]: "be_nat (bs @ [b]) = be_nat bs * 256 + unat b"
  by (simp add: be_nat_def)

lemma nat_be_numeral:
  "nat_be (numeral k) x = nat_be (pred_numeral k) (x div 256) @ [of_nat (x mod 256)]"
  by (metis nat_be.simps(2) numeral_eq_Suc)

lemma length_nat_be [simp]: "length (nat_be n x) = n"
  by (induction n arbitrary: x) auto

lemma be_nat_nat_be_mod: "be_nat (nat_be n x) = x mod 256 ^ n"
proof (induction n arbitrary: x)
  case 0
  then show ?case by simp
next
  case (Suc n)
  have "x mod (256 * 256 ^ n) = 256 * (x div 256 mod 256 ^ n) + x mod 256"
    by (rule mod_mult2_eq)
  with Suc show ?case by (simp add: algebra_simps)
qed

lemma be_nat_nat_be [simp]: "x < 256 ^ n \<Longrightarrow> be_nat (nat_be n x) = x"
  by (simp add: be_nat_nat_be_mod)

lemma be_nat_less: "be_nat bs < 256 ^ length bs"
proof (induction bs rule: rev_induct)
  case Nil
  then show ?case by simp
next
  case (snoc b bs)
  have "be_nat bs * 256 + unat b < (be_nat bs + 1) * 256" by simp
  also have "\<dots> \<le> 256 ^ length bs * 256"
    using snoc.IH by (intro mult_right_mono) auto
  finally show ?case by simp
qed

lemma nat_le_0 [simp]: "nat_le 0 = []"
  by (simp add: nat_le.simps)

lemma nat_le_pos: "0 < x \<Longrightarrow> nat_le x = of_nat (x mod 256) # nat_le (x div 256)"
  by (simp add: nat_le.simps)

lemma le_nat_nat_le [simp]: "le_nat (nat_le x) = x"
proof (induction x rule: nat_le.induct)
  case (1 x)
  show ?case
  proof (cases "x = 0")
    case True
    then show ?thesis by simp
  next
    case False
    with "1" show ?thesis by (simp add: nat_le_pos)
  qed
qed

lemma nat_le_Nil_iff [simp]: "nat_le x = [] \<longleftrightarrow> x = 0"
  by (cases "x = 0") (auto simp: nat_le_pos)

lemma length_nat_le_le: "length (nat_le x) \<le> k \<longleftrightarrow> x < 256 ^ k"
proof (induction x arbitrary: k rule: nat_le.induct)
  case (1 x)
  show ?case
  proof (cases "x = 0")
    case True
    then show ?thesis by simp
  next
    case False
    then have "length (nat_le x) = Suc (length (nat_le (x div 256)))"
      by (simp add: nat_le_pos)
    moreover have "x div 256 < 256 ^ j \<longleftrightarrow> x < 256 ^ Suc j" for j :: nat
      by auto
    ultimately show ?thesis
      using "1" False by (cases k) auto
  qed
qed

lemma nat_le_last: "nat_le x \<noteq> [] \<Longrightarrow> last (nat_le x) \<noteq> 0"
proof (induction x rule: nat_le.induct)
  case (1 x)
  then have x: "0 < x" by simp
  show ?case
  proof (cases "x div 256 = 0")
    case True
    with x have nz: "x mod 256 \<noteq> 0" by auto
    have "(of_nat (x mod 256) :: byte) \<noteq> 0"
    proof
      assume "(of_nat (x mod 256) :: byte) = 0"
      then have "unat (of_nat (x mod 256) :: byte) = 0" by simp
      with nz show False by simp
    qed
    then show ?thesis using True x by (simp add: nat_le_pos)
  next
    case False
    with "1" x show ?thesis by (simp add: nat_le_pos)
  qed
qed

lemma list_all_zip_map_self [simp]:
  "list_all P (zip (map g xs) xs) \<longleftrightarrow> list_all (\<lambda>x. P (g x, x)) xs"
  by (induction xs) auto

lemma concat_res_Inr_iff:
  "concat_res rs = Inr xs \<longleftrightarrow> (\<exists>xss. rs = map Inr xss \<and> xs = concat xss)"
proof (induction rs arbitrary: xs)
  case Nil
  then show ?case by auto
next
  case (Cons r rs)
  show ?case
  proof (cases r)
    case (Inl e)
    then show ?thesis by auto
  next
    case (Inr ys)
    then have "concat_res (r # rs) = Inr xs \<longleftrightarrow> (\<exists>zs. concat_res rs = Inr zs \<and> xs = ys @ zs)"
      by (auto split: sum.splits)
    also have "\<dots> \<longleftrightarrow> (\<exists>xss. rs = map Inr xss \<and> xs = ys @ concat xss)"
      using Cons.IH by auto
    also have "\<dots> \<longleftrightarrow> (\<exists>xss. r # rs = map Inr xss \<and> xs = concat xss)"
      using Inr by (auto simp: Cons_eq_map_conv)
    finally show ?thesis .
  qed
qed

lemma concat_res_map_Inr [simp]: "concat_res (map Inr xss) = Inr (concat xss)"
  by (induction xss) auto

lemma length_bytes_of [simp]: "length (bytes_of str) = length str"
  by (simp add: bytes_of_def)

lemma length_string_of [simp]: "length (string_of bs) = length bs"
  by (simp add: string_of_def)

lemma string_of_bytes_of [simp]: "string_of (bytes_of str) = str"
proof -
  have "char_of (unat (of_nat (of_char c) :: byte)) = c" for c
    by (simp add: unat_of_nat)
  then show ?thesis by (simp add: string_of_def bytes_of_def map_idI)
qed

lemma bytes_of_string_of [simp]: "bytes_of (string_of bs) = bs"
proof -
  have "(of_nat (of_char (char_of (unat b))) :: byte) = b" for b :: byte
    by simp
  then show ?thesis by (simp add: string_of_def bytes_of_def map_idI)
qed

end
