(* ===== verification/Tags.thy ===== *)
theory Tags
  imports Prelude
begin

text \<open>
  The wire vocabulary of the codec (spec section 3, the Value Model): the tag bytes of
  the Erlang External Term Format kinds this package supports, the protocol version
  byte, and the classification of a tag byte. In Go these are the constants
  \<open>t.Ett*\<close> and \<open>t.EtVersion\<close> of the \<open>types\<close> package, which is not part of
  \<open>src/\<close>; their values are the ones fixed by the ETF specification.
\<close>

datatype ett =
    EttNewFloat       \<comment> \<open>\<open>$F\<close>: 8-byte IEEE-754 double\<close>
  | EttSmallInteger   \<comment> \<open>\<open>$a\<close>: unsigned byte\<close>
  | EttInteger        \<comment> \<open>\<open>$b\<close>: 4-byte two's complement\<close>
  | EttAtom           \<comment> \<open>\<open>$d\<close>: 2-byte length, name\<close>
  | EttSmallTuple     \<comment> \<open>\<open>$h\<close>: 1-byte arity, elements\<close>
  | EttLargeTuple     \<comment> \<open>\<open>$i\<close>: 4-byte arity, elements\<close>
  | EttNil            \<comment> \<open>\<open>$j\<close>: empty list, proper-list terminator\<close>
  | EttString         \<comment> \<open>\<open>$k\<close>: 2-byte length, bytes\<close>
  | EttList           \<comment> \<open>\<open>$l\<close>: 4-byte length, elements, tail\<close>
  | EttBinary         \<comment> \<open>\<open>$m\<close>: 4-byte length, bytes\<close>
  | EttSmallBig       \<comment> \<open>\<open>$n\<close>: 1-byte digit count, sign, digits\<close>
  | EttLargeBig       \<comment> \<open>\<open>$o\<close>: 4-byte digit count, sign, digits\<close>
  | EttSmallAtom      \<comment> \<open>\<open>$s\<close>: 1-byte length, name\<close>

primrec tag_byte :: "ett \<Rightarrow> byte" where
  "tag_byte EttNewFloat = 70"
| "tag_byte EttSmallInteger = 97"
| "tag_byte EttInteger = 98"
| "tag_byte EttAtom = 100"
| "tag_byte EttSmallTuple = 104"
| "tag_byte EttLargeTuple = 105"
| "tag_byte EttNil = 106"
| "tag_byte EttString = 107"
| "tag_byte EttList = 108"
| "tag_byte EttBinary = 109"
| "tag_byte EttSmallBig = 110"
| "tag_byte EttLargeBig = 111"
| "tag_byte EttSmallAtom = 115"

definition EtVersion :: byte where
  "EtVersion = 131"

definition all_ett :: "ett list" where
  "all_ett = [EttNewFloat, EttSmallInteger, EttInteger, EttAtom, EttSmallTuple, EttLargeTuple,
     EttNil, EttString, EttList, EttBinary, EttSmallBig, EttLargeBig, EttSmallAtom]"

text \<open>The classification of spec section 4.1: a tag byte to its kind, or none.\<close>

definition tag_of :: "byte \<Rightarrow> ett option" where
  "tag_of b = find (\<lambda>t. tag_byte t = b) all_ett"

lemma set_all_ett: "set all_ett = UNIV"
proof -
  have "t \<in> set all_ett" for t by (cases t) (simp_all add: all_ett_def)
  then show ?thesis by blast
qed

lemma tag_byte_eq_iff [simp]: "tag_byte a = tag_byte b \<longleftrightarrow> a = b"
  by (cases a; cases b) simp_all

lemma tag_of_tag_byte [simp]: "tag_of (tag_byte t) = Some t"
  by (cases t) (simp_all add: tag_of_def all_ett_def)

lemma tag_of_SomeD: "tag_of b = Some t \<Longrightarrow> tag_byte t = b"
  by (auto simp: tag_of_def find_Some_iff)

lemma tag_of_None_iff: "tag_of b = None \<longleftrightarrow> (\<forall>t. tag_byte t \<noteq> b)"
  by (auto simp: tag_of_def find_None_iff set_all_ett)

lemma tag_byte_not_version [simp]: "tag_byte t \<noteq> EtVersion"
  by (cases t) (simp_all add: EtVersion_def)

end
