(* ===== verification/Errors.thy ===== *)
theory Errors
  imports Tags
begin

text \<open>
  The error values the codec returns (spec section 7, the Error Taxonomy). The Go
  decoder mixes three sorts: sentinel values and typed errors a caller can test for
  (\<open>io.EOF\<close>, \<open>read.ErrImproperList\<close>, \<open>*read.ErrTypeDiffer\<close>, the encoder's
  \<open>EncodeError\<close>), and messages built with \<open>fmt.Errorf\<close> that carry their kind only
  in their text. The model keeps one constructor per distinct error the code can
  produce, and a run-time panic of \<open>reflect\<close> as the value \<open>Panic\<close>.
\<close>

datatype error =
    EOF                       \<comment> \<open>\<open>io.EOF\<close>/\<open>io.ErrUnexpectedEOF\<close>: the stream ended\<close>
  | BadVersion byte           \<comment> \<open>\<open>"version %d not supported"\<close> (decode.go:27)\<close>
  | TypeDiffer byte "ett list" \<comment> \<open>\<open>read.ErrTypeDiffer{Got, Expected}\<close> (decode.go:241)\<close>
  | Overflow                  \<comment> \<open>\<open>"%v overflows %T"\<close> (decode.go:55, 67, 78, 133)\<close>
  | ImproperList              \<comment> \<open>\<open>read.ErrImproperList\<close> (decode.go:170)\<close>
  | ArityMismatch nat nat     \<comment> \<open>\<open>"different number of fields (%d, should be %d)"\<close> (decode.go:268)\<close>
  | Unsupported               \<comment> \<open>\<open>"unsupported type %v"\<close> (decode.go:115, 181, 211)\<close>
  | SizeLimit                 \<comment> \<open>encoder: a length does not fit its field\<close>
  | NotBoolean string         \<comment> \<open>\<open>read.Bool\<close>: an atom other than true/false\<close>
  | Panic                     \<comment> \<open>a run-time panic inside \<open>reflect\<close>\<close>

text \<open>The six kinds of spec section 7, with I/O failures and panics kept apart.\<close>

datatype error_kind =
    KBadFormat | KTypeMismatch | KOverflow | KArityMismatch | KSizeLimit | KUnsupportedType
  | KIO | KPanic

fun kind_of :: "error \<Rightarrow> error_kind" where
  "kind_of EOF = KIO"
| "kind_of (BadVersion b) = KBadFormat"
| "kind_of (TypeDiffer b ts) = KTypeMismatch"
| "kind_of Overflow = KOverflow"
| "kind_of ImproperList = KTypeMismatch"
| "kind_of (ArityMismatch n a) = KArityMismatch"
| "kind_of Unsupported = KUnsupportedType"
| "kind_of SizeLimit = KSizeLimit"
| "kind_of (NotBoolean a) = KTypeMismatch"
| "kind_of Panic = KPanic"

text \<open>
  Whether the Go value of an error is discriminated, so that a caller can branch on
  its kind without parsing a message: true for sentinels and typed errors, false for
  the \<open>fmt.Errorf\<close> strings of decode.go and for a panic, which is no value at all.
\<close>

fun discriminated :: "error \<Rightarrow> bool" where
  "discriminated EOF = True"
| "discriminated (BadVersion b) = False"
| "discriminated (TypeDiffer b ts) = True"
| "discriminated Overflow = False"
| "discriminated ImproperList = True"
| "discriminated (ArityMismatch n a) = False"
| "discriminated Unsupported = False"
| "discriminated SizeLimit = True"
| "discriminated (NotBoolean a) = True"
| "discriminated Panic = False"

end
