(* ===== verification/Prims.thy ===== *)
theory Prims
  imports Errors
begin

text \<open>
  The Primitive Codec, reading side (spec sections 4.3 and 6): the byte-level reads
  of decode.go itself (\<open>io.ReadFull\<close> of one tag byte, \<open>binary.Read\<close> of a
  big-endian length or arity) and the readers of the \<open>read\<close> package that
  decode.go calls for every scalar (\<open>read.Bool\<close>, \<open>read.Int\<close>, \<open>read.Uint\<close>,
  \<open>read.Float\<close>, \<open>read.Atom\<close>, \<open>read.String\<close>, \<open>read.Binary\<close>,
  \<open>read.BigInt\<close>). The \<open>read\<close> package is not part of \<open>src/\<close>: its readers are
  modelled from the spec. Each reads its tag byte, fails with \<open>TypeDiffer\<close> when the
  tag is not one of its kinds, and then reads the payload the wire format prescribes.
  A short stream is \<open>EOF\<close>, and a read that runs short consumes what was left, as
  \<open>io.ReadFull\<close> does.
\<close>

section \<open>Raw reads\<close>

definition read_byte :: "(error, byte) rd" where
  "read_byte s = (case s of [] \<Rightarrow> (Inl EOF, []) | b # s' \<Rightarrow> (Inr b, s'))"

definition read_n :: "nat \<Rightarrow> (error, byte list) rd" where
  "read_n n s = (if n \<le> length s then (Inr (take n s), drop n s) else (Inl EOF, []))"

text \<open>\<open>binary.Read(r, binary.BigEndian, &x)\<close> for an unsigned \<open>x\<close> of \<open>n\<close> bytes.\<close>

definition read_be :: "nat \<Rightarrow> (error, nat) rd" where
  "read_be n = map_rd be_nat (read_n n)"

section \<open>Readers of the read package\<close>

definition read_atom :: "(error, string) rd" where
  "read_atom = bind_rd read_byte (\<lambda>b.
     if b = tag_byte EttAtom then bind_rd (read_be 2) (\<lambda>n. map_rd string_of (read_n n))
     else if b = tag_byte EttSmallAtom then bind_rd (read_be 1) (\<lambda>n. map_rd string_of (read_n n))
     else fail (TypeDiffer b [EttAtom, EttSmallAtom]))"

definition read_bool :: "(error, bool) rd" where
  "read_bool = bind_rd read_atom (\<lambda>a.
     if a = ''true'' then ok True else if a = ''false'' then ok False else fail (NotBoolean a))"

definition read_string :: "(error, string) rd" where
  "read_string = bind_rd read_byte (\<lambda>b.
     if b = tag_byte EttString then bind_rd (read_be 2) (\<lambda>n. map_rd string_of (read_n n))
     else fail (TypeDiffer b [EttString]))"

definition read_binary :: "(error, byte list) rd" where
  "read_binary = bind_rd read_byte (\<lambda>b.
     if b = tag_byte EttBinary then bind_rd (read_be 4) (\<lambda>n. read_n n)
     else fail (TypeDiffer b [EttBinary]))"

text \<open>A bignum: the sign byte (zero for non-negative) and the little-endian digits.\<close>

definition big_value :: "byte \<Rightarrow> byte list \<Rightarrow> int" where
  "big_value sign ds = (if sign = 0 then int (le_nat ds) else - int (le_nat ds))"

definition read_big :: "nat \<Rightarrow> (error, int) rd" where
  "read_big n = bind_rd read_byte (\<lambda>sign. map_rd (big_value sign) (read_n n))"

text \<open>Any of the four integer encodings, as an unbounded integer.\<close>

definition read_integer :: "(error, int) rd" where
  "read_integer = bind_rd read_byte (\<lambda>b.
     if b = tag_byte EttSmallInteger then map_rd int (read_be 1)
     else if b = tag_byte EttInteger then map_rd (\<lambda>n. sint (of_nat n :: 32 word)) (read_be 4)
     else if b = tag_byte EttSmallBig then bind_rd (read_be 1) read_big
     else if b = tag_byte EttLargeBig then bind_rd (read_be 4) read_big
     else fail (TypeDiffer b [EttSmallInteger, EttInteger, EttSmallBig, EttLargeBig]))"

text \<open>\<open>read.Int\<close>: an integer of the signed 64-bit range, else \<open>Overflow\<close>.\<close>

definition read_int :: "(error, 64 word) rd" where
  "read_int = bind_rd read_integer (\<lambda>i.
     if - (2 ^ 63) \<le> i \<and> i < 2 ^ 63 then ok (word_of_int i) else fail Overflow)"

text \<open>\<open>read.Uint\<close>: an integer of the unsigned 64-bit range, else \<open>Overflow\<close>.\<close>

definition read_uint :: "(error, 64 word) rd" where
  "read_uint = bind_rd read_integer (\<lambda>i.
     if 0 \<le> i \<and> i < 2 ^ 64 then ok (word_of_int i) else fail Overflow)"

text \<open>\<open>read.Float\<close>: the 8-byte big-endian IEEE-754 image of a \<open>float64\<close>.\<close>

definition read_float :: "(error, 64 word) rd" where
  "read_float = bind_rd read_byte (\<lambda>b.
     if b = tag_byte EttNewFloat then map_rd of_nat (read_be 8)
     else fail (TypeDiffer b [EttNewFloat]))"

text \<open>\<open>read.BigInt\<close>: any integer encoding, without a range limit.\<close>

definition read_bigint :: "(error, int) rd" where
  "read_bigint = read_integer"

section \<open>Lemmas\<close>

text \<open>The definitions a concrete read unfolds to, for evaluation by \<open>simp\<close>.\<close>

lemmas read_defs = read_byte_def read_n_def read_be_def read_atom_def read_bool_def
  read_string_def read_binary_def big_value_def read_big_def read_integer_def read_int_def
  read_uint_def read_float_def read_bigint_def

lemmas eval_simps = read_defs rd_defs be_nat_def nat_be_numeral string_of_def bytes_of_def
  char_of_def bit_0

lemma read_byte_Cons [simp]: "read_byte (b # s) = (Inr b, s)"
  by (simp add: read_byte_def)

lemma read_byte_Nil [simp]: "read_byte [] = (Inl EOF, [])"
  by (simp add: read_byte_def)

lemma read_n_append [simp]: "length xs = n \<Longrightarrow> read_n n (xs @ s) = (Inr xs, s)"
  by (simp add: read_n_def)

lemma read_be_append [simp]:
  "x < 256 ^ n \<Longrightarrow> read_be n (nat_be n x @ s) = (Inr x, s)"
  by (simp add: read_be_def rd_simps)

lemma read_be_Suc_0 [simp]: "read_be (Suc 0) (b # s) = (Inr (unat b), s)"
  by (simp add: read_be_def read_n_def rd_defs be_nat_def)

lemma read_be_short: "length s < n \<Longrightarrow> read_be n s = (Inl EOF, [])"
  by (simp add: read_be_def read_n_def map_rd_def bind_rd_def)

lemma forward_read_byte [intro]: "forward read_byte"
  by (auto simp: forward_def read_byte_def intro: suffix_ConsI split: list.split)

lemma forward_read_n [intro]: "forward (read_n n)"
  by (simp add: forward_def read_n_def suffix_drop)

lemma forward_read_be [intro]: "forward (read_be n)"
  unfolding read_be_def by blast

lemmas forward_intros = forward_bind forward_map forward_if forward_ok forward_fail forward_read_byte
  forward_read_n forward_read_be

lemma forward_readers:
  "forward read_atom" "forward read_bool" "forward read_string" "forward read_binary"
  "forward read_integer" "forward read_int" "forward read_uint" "forward read_float"
  "forward read_bigint"
proof -
  have atom: "forward read_atom"
    unfolding read_atom_def by (intro forward_intros)
  have integer: "forward read_integer"
    unfolding read_integer_def read_big_def by (intro forward_intros)
  show "forward read_atom" by (rule atom)
  show "forward read_bool"
    unfolding read_bool_def using atom by (intro forward_intros)
  show "forward read_string"
    unfolding read_string_def by (intro forward_intros)
  show "forward read_binary"
    unfolding read_binary_def by (intro forward_intros)
  show "forward read_integer" by (rule integer)
  show "forward read_int"
    unfolding read_int_def using integer by (intro forward_intros)
  show "forward read_uint"
    unfolding read_uint_def using integer by (intro forward_intros)
  show "forward read_float"
    unfolding read_float_def by (intro forward_intros)
  show "forward read_bigint"
    unfolding read_bigint_def by (rule integer)
qed

end
