(* ===== verification/Reflect.thy ===== *)
theory Reflect
  imports Prelude
begin

unbundle bit_operations_syntax

text \<open>
  The destinations the decoder writes into. decode.go dispatches on
  \<open>reflect.Value.Kind()\<close> of the destination (decode.go:41-116) and writes through
  \<open>reflect\<close> setters; the model replaces run-time reflection by a closed type of
  destination shapes \<open>gotype\<close> (one constructor per case the code distinguishes)
  and a type of Go values \<open>goval\<close>, with the zero value of each shape and the
  typing relation between them. The range checks \<open>OverflowInt\<close>, \<open>OverflowUint\<close>
  and \<open>OverflowFloat\<close> of \<open>reflect\<close> are written as the library computes them.
\<close>

section \<open>Destination shapes and values\<close>

datatype gotype =
    TBool                  \<comment> \<open>\<open>reflect.Bool\<close>\<close>
  | TInt nat               \<comment> \<open>\<open>Int, Int8 \<dots> Int64\<close>: the bit size\<close>
  | TUint nat              \<comment> \<open>\<open>Uint, Uintptr, Uint8 \<dots> Uint64\<close>\<close>
  | TFloat nat             \<comment> \<open>\<open>Float32, Float64\<close>\<close>
  | TInterface             \<comment> \<open>\<open>reflect.Interface\<close>\<close>
  | TMap                   \<comment> \<open>\<open>reflect.Map\<close>\<close>
  | TBigIntPtr             \<comment> \<open>\<open>*big.Int\<close>\<close>
  | TPtr gotype            \<comment> \<open>any other pointer\<close>
  | TAtom                  \<comment> \<open>\<open>t.Atom\<close>, a named string type\<close>
  | TString                \<comment> \<open>\<open>string\<close>\<close>
  | TArray nat gotype      \<comment> \<open>\<open>[n]T\<close>\<close>
  | TSlice gotype          \<comment> \<open>\<open>[]T\<close>; \<open>[]byte\<close> is \<open>TSlice (TUint 8)\<close>\<close>
  | TStruct "(bool \<times> gotype) list" \<comment> \<open>fields with \<open>CanSet()\<close>\<close>
  | TOther                 \<comment> \<open>complex, chan, func, unsafe pointer\<close>

text \<open>
  A value stored in a destination. Integers are kept as the \<open>int64\<close>/\<open>uint64\<close> the
  code passes to \<open>SetInt\<close>/\<open>SetUint\<close>, floats as the bits of the \<open>float64\<close> passed
  to \<open>SetFloat\<close>, a \<open>*big.Int\<close> as \<open>None\<close> (nil) or its value, and the values of
  interfaces, maps and other pointers, which the decoder never writes, as
  \<open>VOpaque\<close>.
\<close>

datatype goval =
    VBool bool
  | VInt "64 word"
  | VUint "64 word"
  | VFloat "64 word"
  | VAtom string
  | VString string
  | VArray "goval list"
  | VSlice "goval list"
  | VStruct "goval list"
  | VBigInt "int option"
  | VOpaque

definition byte_val :: "byte \<Rightarrow> goval" where
  "byte_val b = VUint (ucast b)"

text \<open>Zero values, as \<open>reflect.MakeSlice\<close> and a fresh variable hold them.\<close>

fun zero :: "gotype \<Rightarrow> goval" where
  "zero TBool = VBool False"
| "zero (TInt n) = VInt 0"
| "zero (TUint n) = VUint 0"
| "zero (TFloat n) = VFloat 0"
| "zero TBigIntPtr = VBigInt None"
| "zero TAtom = VAtom []"
| "zero TString = VString []"
| "zero (TArray n t) = VArray (replicate n (zero t))"
| "zero (TSlice t) = VSlice []"
| "zero (TStruct fs) = VStruct (map (\<lambda>(b, t). zero t) fs)"
| "zero TInterface = VOpaque"
| "zero TMap = VOpaque"
| "zero (TPtr t) = VOpaque"
| "zero TOther = VOpaque"

section \<open>The range checks of reflect\<close>

text \<open>
  \<open>reflect.Value.OverflowInt\<close>: \<open>trunc := (x << (64 - bitSize)) >> (64 - bitSize);
  return x != trunc\<close>, an arithmetic shift on \<open>int64\<close>.
\<close>

definition overflow_int :: "nat \<Rightarrow> 64 word \<Rightarrow> bool" where
  "overflow_int bits x = (let sh = 64 - bits in x \<noteq> signed_drop_bit sh (push_bit sh x))"

text \<open>\<open>reflect.Value.OverflowUint\<close>: the same with a logical shift on \<open>uint64\<close>.\<close>

definition overflow_uint :: "nat \<Rightarrow> 64 word \<Rightarrow> bool" where
  "overflow_uint bits x = (let sh = 64 - bits in x \<noteq> drop_bit sh (push_bit sh x))"

text \<open>
  \<open>reflect.Value.OverflowFloat\<close>: false for \<open>Float64\<close>; for \<open>Float32\<close>
  \<open>math.MaxFloat32 < |x| && |x| <= math.MaxFloat64\<close>. On the IEEE-754 bits of a
  non-negative double, the order of the values is the unsigned order of the bit
  patterns, so the test reads the magnitude bits \<open>m\<close> and compares them with the
  bits of \<open>MaxFloat32\<close> (\<open>0x47EFFFFFE0000000\<close>) and of \<open>MaxFloat64\<close>
  (\<open>0x7FEFFFFFFFFFFFFF\<close>); infinities and NaNs lie above the latter and do not
  overflow, as in Go.
\<close>

definition overflow_float :: "nat \<Rightarrow> 64 word \<Rightarrow> bool" where
  "overflow_float bits x =
     (bits = 32 \<and>
      (let m = x AND 0x7FFFFFFFFFFFFFFF in 0x47EFFFFFE0000000 < m \<and> m \<le> 0x7FEFFFFFFFFFFFFF))"

section \<open>Typing of values\<close>

text \<open>
  \<open>has_type v t\<close>: the value \<open>v\<close> can be held by a destination of shape \<open>t\<close>;
  numbers fit the destination's width as the range checks above decide it.
\<close>

function has_type :: "goval \<Rightarrow> gotype \<Rightarrow> bool" where
  "has_type v TBool = (case v of VBool b \<Rightarrow> True | _ \<Rightarrow> False)"
| "has_type v (TInt n) = (case v of VInt x \<Rightarrow> \<not> overflow_int n x | _ \<Rightarrow> False)"
| "has_type v (TUint n) = (case v of VUint x \<Rightarrow> \<not> overflow_uint n x | _ \<Rightarrow> False)"
| "has_type v (TFloat n) = (case v of VFloat x \<Rightarrow> \<not> overflow_float n x | _ \<Rightarrow> False)"
| "has_type v TInterface = (v = VOpaque)"
| "has_type v TMap = (v = VOpaque)"
| "has_type v (TPtr t) = (v = VOpaque)"
| "has_type v TOther = (v = VOpaque)"
| "has_type v TBigIntPtr = (case v of VBigInt i \<Rightarrow> True | _ \<Rightarrow> False)"
| "has_type v TAtom = (case v of VAtom a \<Rightarrow> True | _ \<Rightarrow> False)"
| "has_type v TString = (case v of VString a \<Rightarrow> True | _ \<Rightarrow> False)"
| "has_type v (TArray n t) =
     (case v of VArray vs \<Rightarrow> length vs = n \<and> list_all (\<lambda>x. has_type x t) vs | _ \<Rightarrow> False)"
| "has_type v (TSlice t) = (case v of VSlice vs \<Rightarrow> list_all (\<lambda>x. has_type x t) vs | _ \<Rightarrow> False)"
| "has_type v (TStruct fs) =
     (case v of VStruct vs \<Rightarrow>
        length vs = length fs \<and> list_all (\<lambda>(x, f). has_type x (snd f)) (zip vs fs)
      | _ \<Rightarrow> False)"
  by pat_completeness auto
termination
  by (relation "measure (\<lambda>(v, t). size t)")
    (auto dest!: set_zip_rightD intro!: le_imp_less_Suc size_list_estimation')

section \<open>Lemmas\<close>

text \<open>
  The shift pair of \<open>OverflowInt\<close> sign-extends from bit \<open>bits - 1\<close>, and the one
  of \<open>OverflowUint\<close> truncates to \<open>bits\<close> bits.
\<close>

lemma signed_drop_push_bit:
  "0 < n \<Longrightarrow> n \<le> 64 \<Longrightarrow>
     signed_drop_bit (64 - n) (push_bit (64 - n) (x :: 64 word)) = signed_take_bit (n - 1) x"
  by (rule bit_word_eqI) (auto simp: bit_simps)

lemma drop_push_bit:
  "n \<le> 64 \<Longrightarrow> drop_bit (64 - n) (push_bit (64 - n) (x :: 64 word)) = take_bit n x"
  by (rule bit_word_eqI) (auto simp: bit_simps)

lemma sint_signed_take_bit:
  "k < LENGTH('a) \<Longrightarrow> sint (signed_take_bit k (x :: 'a::len word)) = signed_take_bit k (sint x)"
proof -
  assume k: "k < LENGTH('a)"
  then have "min k (min (LENGTH('a) - Suc 0) n) = min k n" for n by auto
  with k show ?thesis by (intro bit_eqI) (auto simp: bit_simps)
qed

lemma signed_take_bit_word_eq_self_iff:
  "k < LENGTH('a) \<Longrightarrow>
     signed_take_bit k (x :: 'a::len word) = x \<longleftrightarrow> - (2 ^ k) \<le> sint x \<and> sint x < 2 ^ k"
proof -
  assume k: "k < LENGTH('a)"
  have "signed_take_bit k x = x \<longleftrightarrow> sint (signed_take_bit k x) = sint x"
    by (metis signed_word_eqI)
  also have "\<dots> \<longleftrightarrow> signed_take_bit k (sint x) = sint x"
    using k by (simp add: sint_signed_take_bit)
  finally show ?thesis by (simp add: signed_take_bit_int_eq_self_iff)
qed

lemma take_bit_word_eq_self_iff: "take_bit n (x :: 'a::len word) = x \<longleftrightarrow> unat x < 2 ^ n"
proof -
  have "take_bit n x = x \<longleftrightarrow> unat (take_bit n x) = unat x"
    by (metis word_unat_eq_iff)
  also have "\<dots> \<longleftrightarrow> unat x mod 2 ^ n = unat x"
    by (simp only: unsigned_take_bit_eq) (simp add: take_bit_eq_mod)
  also have "\<dots> \<longleftrightarrow> unat x < 2 ^ n"
    by (metis mod_less mod_less_divisor zero_less_numeral zero_less_power)
  finally show ?thesis .
qed

lemma zero_has_type [simp]: "has_type (zero t) t"
proof (induction t rule: zero.induct)
  case (10 fs)
  then have "has_type (zero (snd f)) (snd f)" if "f \<in> set fs" for f
    using that by (cases f) auto
  then have "list_all (\<lambda>f. has_type (zero (snd f)) (snd f)) fs"
    by (simp add: list_all_iff)
  then show ?case by (simp add: split_beta)
qed (simp_all add: overflow_int_def overflow_uint_def overflow_float_def list_all_iff)

text \<open>
  \<open>OverflowInt\<close>'s shift pair is the range check of a signed field of \<open>bits\<close>
  bits, and \<open>OverflowUint\<close>'s the range check of an unsigned one.
\<close>

lemma overflow_int_iff:
  assumes "0 < bits" and "bits \<le> 64"
  shows "overflow_int bits x \<longleftrightarrow> \<not> (- (2 ^ (bits - 1)) \<le> sint x \<and> sint x < 2 ^ (bits - 1))"
proof -
  have "bits - 1 < LENGTH(64)" using assms by simp
  then show ?thesis
    using assms
    by (simp add: overflow_int_def signed_drop_push_bit signed_take_bit_word_eq_self_iff
        eq_commute [of x])
qed

lemma overflow_uint_iff:
  assumes "bits \<le> 64"
  shows "overflow_uint bits x \<longleftrightarrow> 2 ^ bits \<le> unat x"
  using assms
  by (auto simp: overflow_uint_def drop_push_bit take_bit_word_eq_self_iff eq_commute [of x])

lemma overflow_uint_byte [simp]: "\<not> overflow_uint 8 (ucast (b :: byte) :: 64 word)"
proof -
  have b: "unat b < 256" by simp
  then have "unat b < 2 ^ 64" by (rule order.strict_trans) simp
  then have "unat (ucast b :: 64 word) = unat b"
    by (simp add: unsigned_ucast_eq take_bit_nat_eq_self)
  then show ?thesis by (simp add: overflow_uint_iff not_le)
qed

lemma byte_val_has_type [simp]: "has_type (byte_val b) (TUint 8)"
  by (simp add: byte_val_def)

end
