(* ===== verification/Decoder.thy ===== *)
theory Decoder
  imports Prims Reflect
begin

text \<open>
  The Decoder, src/_old/decode.go. Go's \<open>decode(r, ptr)\<close> reads from \<open>r\<close> and writes
  \<open>*ptr\<close> in place; the model of every decoding function takes the value \<open>*ptr\<close>
  holds before the call and the stream, and returns the error it reports, the value
  \<open>*ptr\<close> holds afterwards and the rest of the stream. A destination the code does
  not touch on some path is returned unchanged, so what the caller can observe after
  an error is part of the model. The recursion into elements and fields is passed to
  the helpers as the element decoder, so that each helper is a definition of its own,
  in the order and with the names of decode.go.
\<close>

type_synonym dres = "error option \<times> goval \<times> stream"

type_synonym decoder = "goval \<Rightarrow> stream \<Rightarrow> dres"

section \<open>Scalar destinations (decode.go:42-103)\<close>

text \<open>\<open>if result, err = read.X(r); err == nil { v.Set(result) }\<close>\<close>

definition store :: "('a \<Rightarrow> goval) \<Rightarrow> goval \<Rightarrow> (error + 'a) \<times> stream \<Rightarrow> dres" where
  "store f v r = (case r of (Inl e, s') \<Rightarrow> (Some e, v, s') | (Inr a, s') \<Rightarrow> (None, f a, s'))"

definition decode_bool :: decoder where
  "decode_bool v s = store VBool v (read_bool s)"

definition decode_int :: "nat \<Rightarrow> decoder" where
  "decode_int bits v s =
     (case read_int s of
       (Inl e, s') \<Rightarrow> (Some e, v, s')
     | (Inr x, s') \<Rightarrow> if overflow_int bits x then (Some Overflow, v, s') else (None, VInt x, s'))"

definition decode_uint :: "nat \<Rightarrow> decoder" where
  "decode_uint bits v s =
     (case read_uint s of
       (Inl e, s') \<Rightarrow> (Some e, v, s')
     | (Inr x, s') \<Rightarrow> if overflow_uint bits x then (Some Overflow, v, s') else (None, VUint x, s'))"

definition decode_float :: "nat \<Rightarrow> decoder" where
  "decode_float bits v s =
     (case read_float s of
       (Inl e, s') \<Rightarrow> (Some e, v, s')
     | (Inr x, s') \<Rightarrow> if overflow_float bits x then (Some Overflow, v, s') else (None, VFloat x, s'))"

definition decode_atom :: decoder where
  "decode_atom v s = store VAtom v (read_atom s)"

definition decode_string :: decoder where
  "decode_string v s = store VString v (read_string s)"

text \<open>\<open>decodeSpecial\<close> (decode.go:202-215): only \<open>*big.Int\<close> among the pointers.\<close>

definition decode_special :: "gotype \<Rightarrow> decoder" where
  "decode_special t v s =
     (if t = TBigIntPtr then store (\<lambda>i. VBigInt (Some i)) v (read_bigint s)
      else (Some Unsupported, v, s))"

section \<open>Lists, slices and arrays (decode.go:121-200)\<close>

text \<open>
  The element loop of \<open>decodeList\<close> (decode.go:161-166): each element of the fresh
  slice is decoded in place, and the loop returns at the first error.
\<close>

fun decode_elems :: "decoder \<Rightarrow> goval list \<Rightarrow> stream \<Rightarrow> error option \<times> goval list \<times> stream" where
  "decode_elems dec [] s = (None, [], s)"
| "decode_elems dec (x # xs) s =
     (case dec x s of
       (Some e, x', s') \<Rightarrow> (Some e, x' # xs, s')
     | (None, x', s') \<Rightarrow> (case decode_elems dec xs s' of (r, xs', s'') \<Rightarrow> (r, x' # xs', s'')))"

text \<open>
  \<open>decodeList\<close> (decode.go:144-185), called for a slice (\<open>is_array\<close> false) or an
  array of element shape \<open>e\<close>. On the list tag it reads the length, makes a slice of
  that many zero elements with \<open>reflect.MakeSlice(v.Type(), \<dots>)\<close>, which panics when
  \<open>v\<close> is an array, decodes the elements, reads the tail tag and stores the slice.
  The nil tag leaves \<open>v\<close> untouched, and so does any other tag: the switch has no
  default case, and \<open>err\<close> is still the \<open>nil\<close> of the tag read. When the tail read
  fails, the code stores the slice and returns the read error.
\<close>

definition decode_list :: "decoder \<Rightarrow> bool \<Rightarrow> gotype \<Rightarrow> decoder" where
  "decode_list dec is_array e v s =
     (case read_byte s of
       (Inl err, s1) \<Rightarrow> (Some err, v, s1)
     | (Inr b, s1) \<Rightarrow>
        if b = tag_byte EttList then
          (case read_be 4 s1 of
            (Inl err, s2) \<Rightarrow> (Some err, v, s2)
          | (Inr len, s2) \<Rightarrow>
              if is_array then (Some Panic, v, s2)
              else
                (case decode_elems dec (replicate len (zero e)) s2 of
                  (Some err, xs, s3) \<Rightarrow> (Some err, v, s3)
                | (None, xs, s3) \<Rightarrow>
                    (case read_byte s3 of
                      (Inl err, s4) \<Rightarrow> (Some err, VSlice xs, s4)
                    | (Inr t, s4) \<Rightarrow>
                        if t \<noteq> tag_byte EttNil then (Some ImproperList, v, s4)
                        else (None, VSlice xs, s4))))
        else if b = tag_byte EttNil then (None, v, s1)
        else (None, v, s1))"

text \<open>
  \<open>decodeArray\<close> (decode.go:121-142): an array of \<open>Uint8\<close> kind takes a binary of
  exactly its length, any other array goes to \<open>decodeList\<close>.
\<close>

definition decode_array :: "decoder \<Rightarrow> gotype \<Rightarrow> nat \<Rightarrow> decoder" where
  "decode_array dec e n v s =
     (if e = TUint 8 then
        (case read_binary s of
          (Inl err, s') \<Rightarrow> (Some err, v, s')
        | (Inr bs, s') \<Rightarrow>
            if n = length bs then (None, VArray (map byte_val bs), s') else (Some Overflow, v, s'))
      else decode_list dec True e v s)"

text \<open>\<open>decodeSlice\<close> (decode.go:187-200): \<open>[]byte\<close> takes a binary.\<close>

definition decode_slice :: "decoder \<Rightarrow> gotype \<Rightarrow> decoder" where
  "decode_slice dec e v s =
     (if e = TUint 8 then store (\<lambda>bs. VSlice (map byte_val bs)) v (read_binary s)
      else decode_list dec False e v s)"

section \<open>Structs as tuples (decode.go:217-277)\<close>

text \<open>The tuple header: small tuple with a 1-byte arity, large tuple with 4 bytes.\<close>

definition read_tuple_header :: "(error, nat) rd" where
  "read_tuple_header = bind_rd read_byte (\<lambda>b.
     if b = tag_byte EttSmallTuple then read_be 1
     else if b = tag_byte EttLargeTuple then read_be 4
     else fail (TypeDiffer b [EttSmallTuple, EttLargeTuple]))"

text \<open>
  The field loop (decode.go:254-265): every settable field is decoded in place and
  counted in \<open>fieldsSet\<close>, the count is incremented before the error test, and the
  loop breaks at the first error; a field that cannot be set is skipped.
\<close>

fun decode_fields ::
  "(bool \<times> decoder) list \<Rightarrow> goval list \<Rightarrow> nat \<Rightarrow> stream \<Rightarrow> error option \<times> nat \<times> goval list \<times> stream"
where
  "decode_fields [] vs n s = (None, n, vs, s)"
| "decode_fields ((settable, dec) # fds) vs n s =
     (case vs of
       [] \<Rightarrow> (None, n, [], s)
     | v # vs' \<Rightarrow>
        if settable then
          (case dec v s of
            (Some e, v', s') \<Rightarrow> (Some e, Suc n, v' # vs', s')
          | (None, v', s') \<Rightarrow>
              (case decode_fields fds vs' (Suc n) s' of (r, k, ws, s'') \<Rightarrow> (r, k, v' # ws, s'')))
        else (case decode_fields fds vs' n s of (r, k, ws, s'') \<Rightarrow> (r, k, v # ws, s'')))"

definition fields_of :: "goval \<Rightarrow> goval list" where
  "fields_of v = (case v of VStruct vs \<Rightarrow> vs | _ \<Rightarrow> [])"

text \<open>
  \<open>decodeStruct\<close>: after the loop, an arity that differs from \<open>fieldsSet\<close> replaces
  whatever error the loop returned by the arity message, which reports
  \<open>v.NumField()\<close>; the fields the loop wrote stay written.
\<close>

definition decode_struct :: "(bool \<times> decoder) list \<Rightarrow> decoder" where
  "decode_struct fds v s =
     (case read_tuple_header s of
       (Inl e, s1) \<Rightarrow> (Some e, v, s1)
     | (Inr arity, s1) \<Rightarrow>
        (case decode_fields fds (fields_of v) 0 s1 of
          (err, fields_set, vs', s2) \<Rightarrow>
            if arity \<noteq> fields_set then (Some (ArityMismatch (length fds) arity), VStruct vs', s2)
            else (err, VStruct vs', s2)))"

section \<open>The dispatch on the destination's kind (decode.go:38-119)\<close>

text \<open>
  Interfaces and maps are the \<open>FIXME\<close> cases: nothing is read, nothing is written
  and no error is returned.
\<close>

fun decode :: "gotype \<Rightarrow> decoder" where
  "decode TBool v s = decode_bool v s"
| "decode (TInt n) v s = decode_int n v s"
| "decode (TUint n) v s = decode_uint n v s"
| "decode (TFloat n) v s = decode_float n v s"
| "decode TInterface v s = (None, v, s)"
| "decode TMap v s = (None, v, s)"
| "decode TBigIntPtr v s = decode_special TBigIntPtr v s"
| "decode (TPtr t) v s = decode_special (TPtr t) v s"
| "decode TAtom v s = decode_atom v s"
| "decode TString v s = decode_string v s"
| "decode (TArray n e) v s = decode_array (decode e) e n v s"
| "decode (TSlice e) v s = decode_slice (decode e) e v s"
| "decode (TStruct fs) v s = decode_struct (map (\<lambda>(b, t). (b, decode t)) fs) v s"
| "decode TOther v s = (Some Unsupported, v, s)"

text \<open>\<open>Decode\<close> (decode.go:22-36): the version byte, then one term.\<close>

definition Decode :: "gotype \<Rightarrow> decoder" where
  "Decode t v s =
     (case read_byte s of
       (Inl e, s') \<Rightarrow> (Some e, v, s')
     | (Inr b, s') \<Rightarrow> if b \<noteq> EtVersion then (Some (BadVersion b), v, s') else decode t v s')"

section \<open>Lemmas: the loops\<close>

text \<open>
  The element loop and the field loop are stated over any element decoder: each
  property of the loop follows from the same property of the decoders it calls.
\<close>

lemma decode_elems_forward:
  assumes "\<And>v s r v' s'. dec v s = (r, v', s') \<Longrightarrow> suffix s' s"
  shows "decode_elems dec xs s = (r, ys, s') \<Longrightarrow> suffix s' s"
proof (induction xs arbitrary: s r ys)
  case Nil
  then show ?case by simp
next
  case (Cons x xs)
  obtain q x' s1 where d: "dec x s = (q, x', s1)" by (metis prod_cases3)
  have "suffix s1 s" using assms d .
  with Cons d show ?case
    by (auto split: option.splits prod.splits intro: suffix_order.trans)
qed

lemma decode_elems_preserves:
  assumes "\<And>v s r v' s'. P v \<Longrightarrow> dec v s = (r, v', s') \<Longrightarrow> P v'"
  shows "list_all P xs \<Longrightarrow> decode_elems dec xs s = (r, ys, s') \<Longrightarrow> list_all P ys"
proof (induction xs arbitrary: s r ys)
  case Nil
  then show ?case by simp
next
  case (Cons x xs)
  obtain q x' s1 where d: "dec x s = (q, x', s1)" by (metis prod_cases3)
  have "P x'" using assms [of x s q x' s1] Cons.prems(1) d by simp
  with Cons d show ?case by (auto split: option.splits prod.splits)
qed


lemma decode_fields_count_ok:
  "decode_fields fds vs n s = (None, k, ws, s') \<Longrightarrow> length vs = length fds \<Longrightarrow>
     k = n + length (filter fst fds)"
proof (induction fds vs n s arbitrary: k ws s' rule: decode_fields.induct)
  case (1 vs n s)
  then show ?case by simp
next
  case (2 settable dec fds vs n s)
  then show ?case
    by (fastforce split: list.splits if_splits option.splits prod.splits)
qed

lemma decode_fields_length:
  "decode_fields fds vs n s = (r, k, ws, s') \<Longrightarrow> length vs = length fds \<Longrightarrow> length ws = length vs"
proof (induction fds vs n s arbitrary: r k ws s' rule: decode_fields.induct)
  case (1 vs n s)
  then show ?case by simp
next
  case (2 settable dec fds vs n s)
  then show ?case
    by (fastforce split: list.splits if_splits option.splits prod.splits)
qed

lemma decode_struct_fails:
  assumes "length (fields_of v) = length fds" and "read_tuple_header s = (Inr arity, s1)"
    and "arity \<noteq> length (filter fst fds)"
  shows "fst (decode_struct fds v s) \<noteq> None"
proof -
  obtain r k ws s2 where f: "decode_fields fds (fields_of v) 0 s1 = (r, k, ws, s2)"
    by (metis prod_cases4)
  show ?thesis
  proof (cases "arity = k")
    case True
    with assms(1,3) f have "r \<noteq> None" using decode_fields_count_ok by fastforce
    with True f assms(2) show ?thesis by (simp add: decode_struct_def)
  next
    case False
    with f assms(2) show ?thesis by (simp add: decode_struct_def)
  qed
qed


section \<open>Lemmas: consumption\<close>

lemma decode_list_forward:
  assumes "\<And>v s r v' s'. dec v s = (r, v', s') \<Longrightarrow> suffix s' s"
  shows "decode_list dec a e v s = (r, v', s') \<Longrightarrow> suffix s' s"
proof -
  have el: "decode_elems dec xs s = (q, ys, s') \<Longrightarrow> suffix s' s" for xs s q ys s'
    using assms by (rule decode_elems_forward)
  have rb: "read_byte s = (q, s') \<Longrightarrow> suffix s' s" for q s s'
    by (rule forwardD [OF forward_read_byte])
  have rbe: "read_be 4 s = (q, s') \<Longrightarrow> suffix s' s" for q s s'
    by (rule forwardD [OF forward_read_be])
  assume "decode_list dec a e v s = (r, v', s')"
  then show ?thesis
    unfolding decode_list_def
    by (auto split: prod.splits sum.splits option.splits if_splits
        dest!: rb rbe el intro: suffix_order.trans)
qed

lemma decode_fields_forward:
  assumes "\<And>b dec v s r v' s'. (b, dec) \<in> set fds \<Longrightarrow> dec v s = (r, v', s') \<Longrightarrow> suffix s' s"
  shows "decode_fields fds vs n s = (r, k, ws, s') \<Longrightarrow> suffix s' s"
  using assms
proof (induction fds vs n s arbitrary: r k ws s' rule: decode_fields.induct)
  case (1 vs n s)
  then show ?case by simp
next
  case (2 settable dec fds vs n s)
  have d: "dec v s = (q, v', s1) \<Longrightarrow> suffix s1 s" for v q v' s1
    using "2.prems"(2) [of settable dec v s q v' s1] by simp
  show ?case
    using "2.prems"(1) "2.IH" "2.prems"(2)
    by (fastforce split: list.splits if_splits option.splits prod.splits dest: d
        intro: suffix_order.trans)
qed

lemma store_forward: "forward m \<Longrightarrow> store f v (m s) = (r, v', s') \<Longrightarrow> suffix s' s"
  by (auto simp: store_def split: prod.splits sum.splits dest: forwardD)

lemma forward_read_tuple_header: "forward read_tuple_header"
  unfolding read_tuple_header_def by (intro forward_intros)

lemma decode_array_forward:
  assumes "\<And>v s r v' s'. dec v s = (r, v', s') \<Longrightarrow> suffix s' s"
  shows "decode_array dec e n v s = (r, v', s') \<Longrightarrow> suffix s' s"
  using decode_list_forward [OF assms] forwardD [OF forward_readers(4)]
  by (auto simp: decode_array_def split: if_splits prod.splits sum.splits)

lemma decode_slice_forward:
  assumes "\<And>v s r v' s'. dec v s = (r, v', s') \<Longrightarrow> suffix s' s"
  shows "decode_slice dec e v s = (r, v', s') \<Longrightarrow> suffix s' s"
  using decode_list_forward [OF assms] store_forward [OF forward_readers(4)]
  by (auto simp: decode_slice_def split: if_splits)

lemma decode_struct_forward:
  assumes "\<And>b dec v s r v' s'. (b, dec) \<in> set fds \<Longrightarrow> dec v s = (r, v', s') \<Longrightarrow> suffix s' s"
  shows "decode_struct fds v s = (r, v', s') \<Longrightarrow> suffix s' s"
  using decode_fields_forward [OF assms] forwardD [OF forward_read_tuple_header]
  by (fastforce simp: decode_struct_def split: if_splits prod.splits sum.splits
      intro: suffix_order.trans)

lemma decode_scalar_forward:
  "decode_bool v s = (r, v', s') \<Longrightarrow> suffix s' s"
  "decode_atom v s = (r, v', s') \<Longrightarrow> suffix s' s"
  "decode_string v s = (r, v', s') \<Longrightarrow> suffix s' s"
  "decode_special t v s = (r, v', s') \<Longrightarrow> suffix s' s"
  "decode_int n v s = (r, v', s') \<Longrightarrow> suffix s' s"
  "decode_uint n v s = (r, v', s') \<Longrightarrow> suffix s' s"
  "decode_float n v s = (r, v', s') \<Longrightarrow> suffix s' s"
  unfolding decode_bool_def decode_atom_def decode_string_def decode_special_def
  by (auto intro: store_forward forward_readers split: if_splits)
    (auto simp: decode_int_def decode_uint_def decode_float_def split: prod.splits sum.splits if_splits
      dest: forwardD [OF forward_readers(6)] forwardD [OF forward_readers(7)] forwardD [OF forward_readers(8)])

lemma decode_forward: "decode t v s = (r, v', s') \<Longrightarrow> suffix s' s"
proof (induction t v s arbitrary: r v' s' rule: decode.induct)
  case (11 n e v s)
  have "decode_array (decode e) e n v s = (r, v', s')" using "11.prems" by simp
  with "11.IH" show ?case by (rule decode_array_forward)
next
  case (12 e v s)
  have "decode_slice (decode e) e v s = (r, v', s')" using "12.prems" by simp
  with "12.IH" show ?case by (rule decode_slice_forward)
next
  case (13 fs v s)
  have "decode_struct (map (\<lambda>(b, t). (b, decode t)) fs) v s = (r, v', s')"
    using "13.prems" by simp
  moreover have "suffix s2 s1"
    if "(b, dec) \<in> set (map (\<lambda>(b, t). (b, decode t)) fs)" and "dec w s1 = (q, w', s2)"
    for b dec w s1 q w' s2
    using that "13.IH" by auto
  ultimately show ?case by (rule decode_struct_forward [rotated])
qed (auto intro: decode_scalar_forward)

section \<open>Lemmas: typing\<close>

lemma decode_list_array_untouched: "decode_list dec True e v s = (r, v', s') \<Longrightarrow> v' = v"
  by (auto simp: decode_list_def split: prod.splits sum.splits if_splits option.splits)

lemma decode_list_typed:
  assumes "\<And>v s r v' s'. has_type v e \<Longrightarrow> dec v s = (r, v', s') \<Longrightarrow> has_type v' e"
    and "has_type v (TSlice e)" and "decode_list dec False e v s = (r, v', s')"
  shows "has_type v' (TSlice e)"
proof -
  have el: "decode_elems dec (replicate n (zero e)) s = (q, xs, s') \<Longrightarrow> list_all (\<lambda>x. has_type x e) xs"
    for n s q xs s'
    by (rule decode_elems_preserves [OF assms(1)]) (simp_all add: list_all_iff)
  from assms(2,3) show ?thesis
    unfolding decode_list_def
    by (auto split: prod.splits sum.splits if_splits option.splits dest: el)
qed

lemma decode_fields_typed:
  assumes D: "\<forall>t v s r v' s'. P t \<longrightarrow> has_type v t \<longrightarrow> D t v s = (r, v', s') \<longrightarrow> has_type v' t"
  shows "list_all (\<lambda>f. P (snd f)) fs \<Longrightarrow> length vs = length fs \<Longrightarrow>
    list_all (\<lambda>(x, f). has_type x (snd f)) (zip vs fs) \<Longrightarrow>
    decode_fields (map (\<lambda>(b, t). (b, D t)) fs) vs n s = (r, k, ws, s') \<Longrightarrow>
    length ws = length fs \<and> list_all (\<lambda>(x, f). has_type x (snd f)) (zip ws fs)"
proof (induction fs arbitrary: vs n s r k ws s')
  case Nil
  then show ?case by simp
next
  case (Cons f fs)
  obtain b t where f: "f = (b, t)" by (cases f)
  from Cons.prems(2) obtain v vs' where vs: "vs = v # vs'" by (cases vs) auto
  have hv: "has_type v t" and hvs: "list_all (\<lambda>(x, f). has_type x (snd f)) (zip vs' fs)"
    using Cons.prems(3) f vs by auto
  have pt: "P t" using Cons.prems(1) f by simp
  have dt: "D t v s = (q, v', s1) \<Longrightarrow> has_type v' t" for q v' s1
    using D hv pt by blast
  have ih: "decode_fields (map (\<lambda>(b, t). (b, D t)) fs) vs' m s2 = (q, k', ws', s3) \<Longrightarrow>
      length ws' = length fs \<and> list_all (\<lambda>(x, f). has_type x (snd f)) (zip ws' fs)" for m s2 q k' ws' s3
    using Cons.IH [of vs' m s2 q k' ws' s3] Cons.prems(1,2) hvs vs by simp
  have len: "length vs' = length fs" using Cons.prems(2) vs by simp
  obtain q v' s1 where d: "D t v s = (q, v', s1)" by (metis prod_cases3)
  have hv': "has_type v' t" using dt d .
  show ?case
  proof (cases "b \<and> q = None")
    case True
    obtain q2 k2 ws2 s2 where r: "decode_fields (map (\<lambda>(b, t). (b, D t)) fs) vs' (Suc n) s1 = (q2, k2, ws2, s2)"
      by (metis prod_cases4)
    with Cons.prems(4) f vs d True have "ws = v' # ws2" by simp
    with ih [OF r] hv' f show ?thesis by simp
  next
    case False
    show ?thesis
    proof (cases b)
      case True
      with False Cons.prems(4) f vs d have "ws = v' # vs'" by (auto split: option.splits)
      with hv' hvs len f show ?thesis by simp
    next
      case nb: False
      obtain q2 k2 ws2 s2 where r: "decode_fields (map (\<lambda>(b, t). (b, D t)) fs) vs' n s = (q2, k2, ws2, s2)"
        by (metis prod_cases4)
      with Cons.prems(4) f vs nb have "ws = v # ws2" by simp
      with ih [OF r] hv f show ?thesis by simp
    qed
  qed
qed

lemma decode_scalar_typed:
  "has_type v TBool \<Longrightarrow> decode_bool v s = (r, v', s') \<Longrightarrow> has_type v' TBool"
  "has_type v TAtom \<Longrightarrow> decode_atom v s = (r, v', s') \<Longrightarrow> has_type v' TAtom"
  "has_type v TString \<Longrightarrow> decode_string v s = (r, v', s') \<Longrightarrow> has_type v' TString"
  "has_type v t \<Longrightarrow> decode_special t v s = (r, v', s') \<Longrightarrow> has_type v' t"
  "has_type v (TInt n) \<Longrightarrow> decode_int n v s = (r, v', s') \<Longrightarrow> has_type v' (TInt n)"
  "has_type v (TUint n) \<Longrightarrow> decode_uint n v s = (r, v', s') \<Longrightarrow> has_type v' (TUint n)"
  "has_type v (TFloat n) \<Longrightarrow> decode_float n v s = (r, v', s') \<Longrightarrow> has_type v' (TFloat n)"
  by (auto simp: decode_bool_def decode_atom_def decode_string_def decode_special_def store_def
      decode_int_def decode_uint_def decode_float_def split: prod.splits sum.splits if_splits)

lemma decode_array_typed:
  assumes "has_type v (TArray n e)" and "decode_array dec e n v s = (r, v', s')"
  shows "has_type v' (TArray n e)"
  using assms decode_list_array_untouched [of dec e v s]
  by (auto simp: decode_array_def list_all_iff byte_val_def split: if_splits prod.splits sum.splits)

lemma decode_slice_typed:
  assumes "\<And>v s r v' s'. has_type v e \<Longrightarrow> dec v s = (r, v', s') \<Longrightarrow> has_type v' e"
    and "has_type v (TSlice e)" and "decode_slice dec e v s = (r, v', s')"
  shows "has_type v' (TSlice e)"
  using assms decode_list_typed [OF assms(1)]
  by (auto simp: decode_slice_def store_def list_all_iff byte_val_def
      split: if_splits prod.splits sum.splits)

lemma decode_struct_typed:
  assumes D: "\<forall>t v s r v' s'. P t \<longrightarrow> has_type v t \<longrightarrow> D t v s = (r, v', s') \<longrightarrow> has_type v' t"
    and P: "list_all (\<lambda>f. P (snd f)) fs"
    and v: "has_type v (TStruct fs)"
    and d: "decode_struct (map (\<lambda>(b, t). (b, D t)) fs) v s = (r, v', s')"
  shows "has_type v' (TStruct fs)"
proof -
  from v obtain vs where vs: "v = VStruct vs" "length vs = length fs"
      "list_all (\<lambda>(x, f). has_type x (snd f)) (zip vs fs)"
    by (cases v) auto
  have f: "decode_fields (map (\<lambda>(b, t). (b, D t)) fs) vs 0 s1 = (q, k, ws, s2) \<Longrightarrow>
      length ws = length fs \<and> list_all (\<lambda>(x, f). has_type x (snd f)) (zip ws fs)" for s1 q k ws s2
    using decode_fields_typed [OF D P vs(2) vs(3)] by blast
  from d v vs(1) show ?thesis
    by (auto simp: decode_struct_def fields_of_def split: prod.splits sum.splits if_splits dest: f)
qed

lemma decode_typed: "has_type v t \<Longrightarrow> decode t v s = (r, v', s') \<Longrightarrow> has_type v' t"
proof (induction t v s arbitrary: r v' s' rule: decode.induct)
  case (11 n e v s)
  have "decode_array (decode e) e n v s = (r, v', s')" using "11.prems" by simp
  with "11.prems"(1) show ?case by (rule decode_array_typed)
next
  case (12 e v s)
  have "decode_slice (decode e) e v s = (r, v', s')" using "12.prems" by simp
  with "12.IH" "12.prems"(1) show ?case by (rule decode_slice_typed)
next
  case (13 fs v s)
  have d: "decode_struct (map (\<lambda>(b, t). (b, decode t)) fs) v s = (r, v', s')"
    using "13.prems" by simp
  let ?P = "\<lambda>t. \<exists>b. (b, t) \<in> set fs"
  have D: "\<forall>t w s1 q w' s2. ?P t \<longrightarrow> has_type w t \<longrightarrow> decode t w s1 = (q, w', s2) \<longrightarrow>
      has_type w' t"
    using "13.IH" by blast
  have P: "list_all (\<lambda>f. ?P (snd f)) fs"
    by (auto simp: list_all_iff intro: prod.collapse [symmetric, THEN subst])
  from D P "13.prems"(1) d show ?case by (rule decode_struct_typed)
qed (auto simp del: has_type.simps intro: decode_scalar_typed)

section \<open>Properties of the decoder\<close>



text \<open>
  C2. Type invariant of the destination: whatever the input, decoding into a
  destination that holds a value of its type leaves a value of that type, on every
  path, errors and panics included. In particular no number is stored that the
  destination's width cannot hold (no silent truncation), a byte array keeps its
  length and every slice element has the element type.
\<close>

theorem decode_preserves_type: "has_type v t \<Longrightarrow> has_type (fst (snd (decode t v s))) t"
  by (metis decode_typed prod.collapse)

theorem decode_preserves_type_witness:
  "has_type (VInt 0) (TInt 8) \<and> has_type (fst (snd (decode (TInt 8) (VInt 0) [97, 200]))) (TInt 8)"
proof -
  have h: "has_type (VInt 0) (TInt 8)" by (simp add: overflow_int_def)
  show ?thesis using h decode_preserves_type [OF h, of "[97, 200]"] by simp
qed

text \<open>
  C4. Improper list detection (spec section 8): when the elements of a list decode
  and the byte after them is not the nil tag, decoding into a slice fails with
  \<open>ImproperList\<close>, the destination keeps its previous value (the decoded elements
  are discarded), and exactly the tail byte has been consumed.
\<close>

theorem decode_improper_list:
  assumes "e \<noteq> TUint 8" and "len < 2 ^ 32"
    and "decode_elems (decode e) (replicate len (zero e)) s = (None, xs, t # rest)"
    and "t \<noteq> tag_byte EttNil"
  shows "decode (TSlice e) v (tag_byte EttList # nat_be 4 len @ s) = (Some ImproperList, v, rest)"
  using assms by (simp add: decode_slice_def decode_list_def)

theorem decode_improper_list_witness:
  "TBool \<noteq> TUint 8 \<and> (1::nat) < 2 ^ 32 \<and>
   decode_elems (decode TBool) (replicate 1 (zero TBool)) [115, 4, 116, 114, 117, 101, 97] =
     (None, [VBool True], 97 # []) \<and> (97::byte) \<noteq> tag_byte EttNil \<and>
   decode (TSlice TBool) (VSlice [VBool False])
     (tag_byte EttList # nat_be 4 1 @ [115, 4, 116, 114, 117, 101, 97]) =
     (Some ImproperList, VSlice [VBool False], [])"
proof -
  have el: "decode_elems (decode TBool) (replicate 1 (zero TBool)) [115, 4, 116, 114, 117, 101, 97] =
     (None, [VBool True], 97 # [])"
    by (simp add: decode_bool_def store_def eval_simps)
  have n: "nat_be 4 1 = [0, 0, 0, 1]" by (simp add: nat_be_numeral)
  show ?thesis
    using el n decode_improper_list [of TBool 1 "[115, 4, 116, 114, 117, 101, 97]" "[VBool True]" 97 "[]"]
    by simp
qed

text \<open>
  C5. Signed destinations (decode.go:48-58): once \<open>read.Int\<close> has returned an
  \<open>int64\<close> \<open>x\<close>, decoding into a signed field of \<open>n\<close> bits stores \<open>x\<close> when it
  lies in \<open>[-2^(n-1), 2^(n-1))\<close> and otherwise fails with \<open>Overflow\<close>, leaving the
  field unchanged; it is never truncated.
\<close>

theorem decode_int_range:
  assumes "0 < n" and "n \<le> 64" and "read_int s = (Inr x, s')"
  shows "decode (TInt n) v s =
    (if - (2 ^ (n - 1)) \<le> sint x \<and> sint x < 2 ^ (n - 1) then (None, VInt x, s')
     else (Some Overflow, v, s'))"
  using assms by (simp add: decode_int_def overflow_int_iff)

theorem decode_int_range_witness:
  "0 < (8::nat) \<and> (8::nat) \<le> 64 \<and> read_int [98, 0, 0, 1, 44] = (Inr 300, []) \<and>
   decode (TInt 8) (VInt 7) [98, 0, 0, 1, 44] = (Some Overflow, VInt 7, [])"
proof -
  have r: "read_int [98, 0, 0, 1, 44] = (Inr 300, [])"
    by (simp add: eval_simps)
  show ?thesis using r decode_int_range [of 8 "[98, 0, 0, 1, 44]" 300 "[]" "VInt 7"] by simp
qed

text \<open>
  C6. Unsigned destinations (decode.go:60-70): once \<open>read.Uint\<close> has returned a
  \<open>uint64\<close> \<open>x\<close>, decoding into an unsigned field of \<open>n \<le> 64\<close> bits stores \<open>x\<close>
  when \<open>x < 2^n\<close> and otherwise fails with \<open>Overflow\<close>, leaving the field unchanged.
\<close>

theorem decode_uint_range:
  assumes "n \<le> 64" and "read_uint s = (Inr x, s')"
  shows "decode (TUint n) v s =
    (if unat x < 2 ^ n then (None, VUint x, s') else (Some Overflow, v, s'))"
  using assms by (simp add: decode_uint_def overflow_uint_iff not_le)

theorem decode_uint_range_witness:
  "(8::nat) \<le> 64 \<and> read_uint [97, 255] = (Inr 255, []) \<and>
   decode (TUint 8) (VUint 0) [97, 255] = (None, VUint 255, [])"
proof -
  have r: "read_uint [97, 255] = (Inr 255, [])"
    by (simp add: eval_simps)
  show ?thesis using r decode_uint_range [of 8 "[97, 255]" 255 "[]" "VUint 0"] by simp
qed

text \<open>
  C7. A slice destination accepts any tag other than the list tag without error
  (decode.go:153-184): the nil tag and every unknown tag consume one byte, return
  no error and leave the destination as it was, so a non-empty slice is not emptied
  by the nil tag and a malformed tag is not reported.
\<close>

theorem decode_slice_other_tag:
  assumes "e \<noteq> TUint 8" and "b \<noteq> tag_byte EttList"
  shows "decode (TSlice e) v (b # s) = (None, v, s)"
  using assms by (simp add: decode_slice_def decode_list_def)

theorem decode_slice_other_tag_witness:
  "TBool \<noteq> TUint 8 \<and> (97::byte) \<noteq> tag_byte EttList \<and>
   decode (TSlice TBool) (VSlice [VBool True]) [97, 1] = (None, VSlice [VBool True], [1])"
  using decode_slice_other_tag [of TBool 97 "VSlice [VBool True]" "[1]"] by simp

text \<open>
  C8. When the stream ends right after the elements of a list, where the nil tail
  should be (decode.go:168-173), the slice of decoded elements has already been
  stored in the destination when the \<open>EOF\<close> error is returned.
\<close>

theorem decode_list_tail_eof:
  assumes "e \<noteq> TUint 8" and "len < 2 ^ 32"
    and "decode_elems (decode e) (replicate len (zero e)) s = (None, xs, [])"
  shows "decode (TSlice e) v (tag_byte EttList # nat_be 4 len @ s) = (Some EOF, VSlice xs, [])"
  using assms by (simp add: decode_slice_def decode_list_def)

theorem decode_list_tail_eof_witness:
  "TBool \<noteq> TUint 8 \<and> (1::nat) < 2 ^ 32 \<and>
   decode_elems (decode TBool) (replicate 1 (zero TBool)) [115, 4, 116, 114, 117, 101] =
     (None, [VBool True], []) \<and>
   decode (TSlice TBool) (VSlice []) (tag_byte EttList # nat_be 4 1 @ [115, 4, 116, 114, 117, 101]) =
     (Some EOF, VSlice [VBool True], [])"
proof -
  have el: "decode_elems (decode TBool) (replicate 1 (zero TBool)) [115, 4, 116, 114, 117, 101] =
     (None, [VBool True], [])"
    by (simp add: decode_bool_def store_def eval_simps)
  show ?thesis
    using el decode_list_tail_eof [of TBool 1 "[115, 4, 116, 114, 117, 101]" "[VBool True]" "VSlice []"]
    by simp
qed

text \<open>
  C9. An array whose elements are not bytes cannot be decoded from a list
  (decode.go:150-161): once the list tag and length are read, \<open>decodeList\<close> calls
  \<open>reflect.MakeSlice\<close> with the array's type, which panics, whatever the length
  and the elements that follow.
\<close>

theorem decode_array_list_panics:
  assumes "e \<noteq> TUint 8" and "len < 2 ^ 32"
  shows "decode (TArray n e) v (tag_byte EttList # nat_be 4 len @ s) = (Some Panic, v, s)"
  using assms by (simp add: decode_array_def decode_list_def)

theorem decode_array_list_panics_witness:
  "TBool \<noteq> TUint 8 \<and> (1::nat) < 2 ^ 32 \<and>
   decode (TArray 1 TBool) (VArray [VBool False]) (tag_byte EttList # nat_be 4 1 @ [106]) =
     (Some Panic, VArray [VBool False], [106])"
  using decode_array_list_panics [of TBool 1 1 "VArray [VBool False]" "[106]"] by simp

text \<open>
  C10. A struct is populated field by field in place (decode.go:254-273): when the
  second field fails to decode, the first field already holds its newly decoded
  value as the error is returned, so the caller sees a partially written struct.
\<close>

theorem decode_struct_partial:
  assumes "read_tuple_header s = (Inr 2, s1)"
    and "decode t1 w1 s1 = (None, w1', s2)" and "decode t2 w2 s2 = (Some err, w2', s3)"
  shows "decode (TStruct [(True, t1), (True, t2)]) (VStruct [w1, w2]) s =
    (Some err, VStruct [w1', w2'], s3)"
  using assms by (simp add: decode_struct_def fields_of_def numeral_2_eq_2)

theorem decode_struct_partial_witness:
  "read_tuple_header [104, 2, 115, 4, 116, 114, 117, 101, 97, 200] =
     (Inr 2, [115, 4, 116, 114, 117, 101, 97, 200]) \<and>
   decode TBool (VBool False) [115, 4, 116, 114, 117, 101, 97, 200] = (None, VBool True, [97, 200]) \<and>
   decode (TInt 8) (VInt 0) [97, 200] = (Some Overflow, VInt 0, []) \<and>
   decode (TStruct [(True, TBool), (True, TInt 8)]) (VStruct [VBool False, VInt 0])
     [104, 2, 115, 4, 116, 114, 117, 101, 97, 200] = (Some Overflow, VStruct [VBool True, VInt 0], [])"
proof -
  have h: "read_tuple_header [104, 2, 115, 4, 116, 114, 117, 101, 97, 200] =
     (Inr 2, [115, 4, 116, 114, 117, 101, 97, 200])"
    by (simp add: read_tuple_header_def eval_simps)
  have b: "decode TBool (VBool False) [115, 4, 116, 114, 117, 101, 97, 200] = (None, VBool True, [97, 200])"
    by (simp add: decode_bool_def store_def eval_simps)
  have i: "decode (TInt 8) (VInt 0) [97, 200] = (Some Overflow, VInt 0, [])"
    by (simp add: decode_int_def eval_simps overflow_int_iff)
  show ?thesis using h b i decode_struct_partial [OF h b i] by simp
qed

text \<open>
  C11. A byte array takes a binary of exactly its length (decode.go:124-135, spec
  section 5): a binary whose length equals the array's stores its bytes, and a
  binary of any other length fails with \<open>Overflow\<close>, leaving the array as it
  was; in both cases exactly the binary is consumed.
\<close>

theorem decode_byte_array:
  assumes "length bs < 2 ^ 32"
  shows "decode (TArray n (TUint 8)) v (tag_byte EttBinary # nat_be 4 (length bs) @ bs @ rest) =
    (if length bs = n then (None, VArray (map byte_val bs), rest) else (Some Overflow, v, rest))"
  using assms by (simp add: decode_array_def read_binary_def rd_simps)

theorem decode_byte_array_witness:
  "length [1, 2, 3 :: byte] < 2 ^ 32 \<and>
   decode (TArray 2 (TUint 8)) (VArray [VUint 0, VUint 0])
     (tag_byte EttBinary # nat_be 4 (length [1, 2, 3 :: byte]) @ [1, 2, 3] @ [106]) =
     (Some Overflow, VArray [VUint 0, VUint 0], [106])"
  using decode_byte_array [of "[1, 2, 3]" 2 "VArray [VUint 0, VUint 0]" "[106]"] by simp

end
