(* ===== verification/Encoder.thy ===== *)
theory Encoder
  imports Prims Reflect
begin

text \<open>
  The Encoder (spec section 4.2): the writers \<open>writeAtom\<close>, \<open>writeString\<close>,
  \<open>writeBinary\<close>, \<open>writeBool\<close>, \<open>writeFloat64\<close>, \<open>writeInt64\<close> and
  \<open>writeBigInt\<close> that src/write_test.go exercises, and the type-directed encoding of
  composite values as tuples and lists. The writers are not part of \<open>src/\<close>; they are
  modelled from the spec and from the sizes write_test.go expects of them, which
  fix one point the spec's table leaves open: an atom of at most 255 bytes is written
  as a small atom with a 1-byte length (test: a 255-byte atom has a 2-byte header).
  A writer returns the bytes it writes, or the error it returns before writing.
\<close>

section \<open>Scalar writers\<close>

definition write_atom :: "string \<Rightarrow> error + byte list" where
  "write_atom a =
     (let n = length a in
      if n \<le> 255 then Inr (tag_byte EttSmallAtom # nat_be 1 n @ bytes_of a)
      else if n \<le> 65535 then Inr (tag_byte EttAtom # nat_be 2 n @ bytes_of a)
      else Inl SizeLimit)"

definition write_string :: "string \<Rightarrow> error + byte list" where
  "write_string str =
     (let n = length str in
      if n \<le> 65535 then Inr (tag_byte EttString # nat_be 2 n @ bytes_of str)
      else Inl SizeLimit)"

definition write_binary :: "byte list \<Rightarrow> error + byte list" where
  "write_binary bs =
     (let n = length bs in
      if n < 2 ^ 32 then Inr (tag_byte EttBinary # nat_be 4 n @ bs) else Inl SizeLimit)"

definition write_bool :: "bool \<Rightarrow> error + byte list" where
  "write_bool b = write_atom (if b then ''true'' else ''false'')"

definition write_float64 :: "64 word \<Rightarrow> byte list" where
  "write_float64 x = tag_byte EttNewFloat # nat_be 8 (unat x)"

text \<open>
  Integers take the smallest encoding that holds them: a small integer for
  \<open>0..255\<close>, a 4-byte two's complement integer for the signed 32-bit range, and a
  bignum otherwise, small (1-byte digit count) when at most 255 digits.
\<close>

definition write_integer :: "int \<Rightarrow> error + byte list" where
  "write_integer i =
     (if 0 \<le> i \<and> i \<le> 255 then Inr (tag_byte EttSmallInteger # nat_be 1 (nat i))
      else if - (2 ^ 31) \<le> i \<and> i < 2 ^ 31 then Inr (tag_byte EttInteger # nat_be 4 (nat (i mod 2 ^ 32)))
      else
        let ds = nat_le (nat \<bar>i\<bar>); n = length ds; sign = (if i < 0 then 1 else 0) in
        if n \<le> 255 then Inr (tag_byte EttSmallBig # nat_be 1 n @ sign # ds)
        else if n < 2 ^ 32 then Inr (tag_byte EttLargeBig # nat_be 4 n @ sign # ds)
        else Inl SizeLimit)"

section \<open>Composite writers\<close>

text \<open>A list: the empty list is \<open>Nil\<close> alone; otherwise tag, length, elements, \<open>Nil\<close>.\<close>

definition write_list :: "(error + byte list) list \<Rightarrow> error + byte list" where
  "write_list rs =
     (if rs = [] then Inr [tag_byte EttNil]
      else if length rs < 2 ^ 32 then
        (case concat_res rs of Inl e \<Rightarrow> Inl e
         | Inr bs \<Rightarrow> Inr (tag_byte EttList # nat_be 4 (length rs) @ bs @ [tag_byte EttNil]))
      else Inl SizeLimit)"

definition write_tuple :: "(error + byte list) list \<Rightarrow> error + byte list" where
  "write_tuple rs =
     (let n = length rs in
      if n < 2 ^ 32 then
        (case concat_res rs of Inl e \<Rightarrow> Inl e
         | Inr bs \<Rightarrow> Inr ((if n \<le> 255 then tag_byte EttSmallTuple # nat_be 1 n
                           else tag_byte EttLargeTuple # nat_be 4 n) @ bs))
      else Inl SizeLimit)"

definition val_byte :: "goval \<Rightarrow> byte" where
  "val_byte v = (case v of VUint x \<Rightarrow> ucast x | _ \<Rightarrow> 0)"

text \<open>
  Encoding directed by the value's type, as the encoder's type switch does: a byte
  array or byte slice is a binary, any other array or slice a list, a struct the
  tuple of its settable fields in declared order. Interfaces, maps, pointers other
  than \<open>*big.Int\<close>, a nil \<open>*big.Int\<close> and the remaining kinds have no encoding.
\<close>

function encode :: "gotype \<Rightarrow> goval \<Rightarrow> error + byte list" where
  "encode TBool v = (case v of VBool b \<Rightarrow> write_bool b | _ \<Rightarrow> Inl Unsupported)"
| "encode (TInt n) v = (case v of VInt x \<Rightarrow> write_integer (sint x) | _ \<Rightarrow> Inl Unsupported)"
| "encode (TUint n) v = (case v of VUint x \<Rightarrow> write_integer (uint x) | _ \<Rightarrow> Inl Unsupported)"
| "encode (TFloat n) v = (case v of VFloat x \<Rightarrow> Inr (write_float64 x) | _ \<Rightarrow> Inl Unsupported)"
| "encode TBigIntPtr v =
     (case v of VBigInt (Some i) \<Rightarrow> write_integer i | _ \<Rightarrow> Inl Unsupported)"
| "encode TAtom v = (case v of VAtom a \<Rightarrow> write_atom a | _ \<Rightarrow> Inl Unsupported)"
| "encode TString v = (case v of VString str \<Rightarrow> write_string str | _ \<Rightarrow> Inl Unsupported)"
| "encode (TArray n t) v =
     (case v of VArray vs \<Rightarrow>
        if t = TUint 8 then write_binary (map val_byte vs) else write_list (map (encode t) vs)
      | _ \<Rightarrow> Inl Unsupported)"
| "encode (TSlice t) v =
     (case v of VSlice vs \<Rightarrow>
        if t = TUint 8 then write_binary (map val_byte vs) else write_list (map (encode t) vs)
      | _ \<Rightarrow> Inl Unsupported)"
| "encode (TStruct fs) v =
     (case v of VStruct vs \<Rightarrow>
        write_tuple (map (\<lambda>(x, f). encode (snd f) x) (filter (\<lambda>(x, f). fst f) (zip vs fs)))
      | _ \<Rightarrow> Inl Unsupported)"
| "encode TInterface v = Inl Unsupported"
| "encode TMap v = Inl Unsupported"
| "encode (TPtr t) v = Inl Unsupported"
| "encode TOther v = Inl Unsupported"
  by pat_completeness auto
termination
  by (relation "measure (\<lambda>(t, v). size t)")
    (auto dest!: set_zip_rightD intro!: le_imp_less_Suc size_list_estimation')

section \<open>Lemmas: each reader reads back what its writer wrote\<close>

text \<open>
  The read-after-write laws of the primitive codec: a reader of the \<open>read\<close> package
  applied to a writer's bytes followed by any stream returns the written value and
  leaves exactly that stream.
\<close>

lemma sint_word_of_int_32:
  assumes "- (2 ^ 31) \<le> i" and "i < 2 ^ 31"
  shows "sint (word_of_int (i mod 2 ^ 32) :: 32 word) = i"
proof -
  have "sint (word_of_int (take_bit 32 i) :: 32 word) = signed_take_bit 31 (take_bit 32 i)"
    by (simp add: sint_sbintrunc')
  also have "\<dots> = i"
    using assms by (simp add: signed_take_bit_take_bit signed_take_bit_int_eq_self)
  finally show ?thesis by (simp add: take_bit_eq_mod)
qed

lemma read_atom_write_atom:
  "write_atom a = Inr bs \<Longrightarrow> read_atom (bs @ s) = (Inr a, s)"
  by (auto simp: write_atom_def read_atom_def Let_def rd_simps length_bytes_of string_of_bytes_of
      split: if_splits)

lemma read_bool_write_bool:
  "write_bool b = Inr bs \<Longrightarrow> read_bool (bs @ s) = (Inr b, s)"
  unfolding write_bool_def read_bool_def
  by (auto dest!: read_atom_write_atom [where s = s] simp: rd_simps)

lemma read_string_write_string:
  "write_string a = Inr bs \<Longrightarrow> read_string (bs @ s) = (Inr a, s)"
  by (auto simp: write_string_def read_string_def Let_def rd_simps length_bytes_of string_of_bytes_of
      split: if_splits)

lemma read_binary_write_binary:
  "write_binary xs = Inr bs \<Longrightarrow> read_binary (bs @ s) = (Inr xs, s)"
  by (auto simp: write_binary_def read_binary_def Let_def rd_simps split: if_splits)

lemma read_float_write_float64:
  "read_float (write_float64 x @ s) = (Inr x, s)"
proof -
  have "unat x < 256 ^ 8" using unsigned_less [of x] by simp
  then show ?thesis by (simp add: write_float64_def read_float_def rd_simps)
qed

lemma big_value_nat_le:
  "big_value (if i < 0 then 1 else 0) (nat_le (nat \<bar>i\<bar>)) = i"
  by (simp add: big_value_def)

lemma read_integer_write_integer:
  assumes "write_integer i = Inr bs"
  shows "read_integer (bs @ s) = (Inr i, s)"
proof (cases "0 \<le> i \<and> i \<le> 255")
  case True
  then have "bs = tag_byte EttSmallInteger # nat_be 1 (nat i)" and "nat i < 256 ^ 1"
    using assms by (auto simp: write_integer_def simp del: nat_be.simps)
  then show ?thesis using True
    by (simp add: read_integer_def rd_simps del: nat_be.simps)
next
  case small: False
  show ?thesis
  proof (cases "- (2 ^ 31) \<le> i \<and> i < 2 ^ 31")
    case True
    have n: "nat (i mod 2 ^ 32) < 256 ^ 4" by simp
    have "sint (of_nat (nat (i mod 2 ^ 32)) :: 32 word) = i"
      using True sint_word_of_int_32 [of i] by (simp add: of_nat_nat)
    moreover have "bs = tag_byte EttInteger # nat_be 4 (nat (i mod 2 ^ 32))"
      using assms small True by (auto simp: write_integer_def)
    ultimately show ?thesis using n
      by (simp add: read_integer_def rd_simps)
  next
    case False
    define ds where "ds = nat_le (nat \<bar>i\<bar>)"
    have big: "bs = (if length ds \<le> 255 then tag_byte EttSmallBig # nat_be 1 (length ds)
                   else tag_byte EttLargeBig # nat_be 4 (length ds)) @ (if i < 0 then 1 else 0) # ds"
      and len: "length ds < 2 ^ 32"
      using assms small False by (auto simp: write_integer_def ds_def Let_def split: if_splits)
    have v: "big_value (if i < 0 then 1 else 0) ds = i"
      unfolding ds_def by (rule big_value_nat_le)
    show ?thesis using big len v
      by (simp add: read_integer_def read_big_def rd_simps)
  qed
qed

lemma read_int_write_integer:
  assumes "write_integer (sint x) = Inr bs"
  shows "read_int (bs @ s) = (Inr x, s)"
proof -
  have "- (2 ^ 63) \<le> sint x" and "sint x < 2 ^ 63"
    using sint_ge [of x] sint_lt [of x] by simp_all
  then show ?thesis
    using read_integer_write_integer [OF assms]
    by (simp add: read_int_def rd_simps scast_eq [symmetric])
qed

lemma read_uint_write_integer:
  assumes "write_integer (uint x) = Inr bs"
  shows "read_uint (bs @ s) = (Inr (x :: 64 word), s)"
proof -
  have "uint x < 2 ^ 64"
    using unsigned_less [of x] by simp
  then show ?thesis
    using read_integer_write_integer [OF assms]
    by (simp add: read_uint_def rd_simps)
qed

end
