(* ===== verification/Roundtrip.thy ===== *)
theory Roundtrip
  imports Decoder Encoder
begin

text \<open>
  The decoder reads back what the encoder writes. \<open>rt_type t\<close> names the
  destination shapes on which this holds in decode.go: an array is a byte array or
  empty (decodeList panics in \<open>reflect.MakeSlice\<close> on any other array), and every
  field of a struct is settable (the encoder skips the others and the decoder leaves
  them as they were). The section proves, shape by shape, that decoding the bytes
  \<open>encode t v\<close> into the zero value of \<open>t\<close> yields \<open>v\<close> and consumes exactly those bytes.
\<close>

fun rt_type :: "gotype \<Rightarrow> bool" where
  "rt_type (TArray n t) = (t = TUint 8 \<or> n = 0)"
| "rt_type (TSlice t) = rt_type t"
| "rt_type (TStruct fs) = list_all (\<lambda>(b, t). b \<and> rt_type t) fs"
| "rt_type t = True"

section \<open>Lemmas: the loops read back concatenated encodings\<close>

lemma decode_elems_concat:
  assumes "\<And>x bs rest. x \<in> set vs \<Longrightarrow> enc x = Inr bs \<Longrightarrow> dec z (bs @ rest) = (None, x, rest)"
    and "concat_res (map enc vs) = Inr bs"
  shows "decode_elems dec (replicate (length vs) z) (bs @ rest) = (None, vs, rest)"
  using assms
proof (induction vs arbitrary: bs)
  case Nil
  then show ?case by simp
next
  case (Cons x vs)
  from Cons.prems(2) obtain b1 bs' where e: "enc x = Inr b1" and r: "concat_res (map enc vs) = Inr bs'"
    and bs: "bs = b1 @ bs'"
    by (auto split: sum.splits)
  have "dec z (b1 @ bs' @ rest) = (None, x, bs' @ rest)"
    using Cons.prems(1) e by simp
  moreover have "decode_elems dec (replicate (length vs) z) (bs' @ rest) = (None, vs, rest)"
    using Cons.IH Cons.prems(1) r by simp
  ultimately show ?case by (simp add: bs)
qed

lemma decode_fields_concat:
  assumes "length vs = length fs"
    and "\<And>x f bs rest. (x, f) \<in> set (zip vs fs) \<Longrightarrow> enc f x = Inr bs \<Longrightarrow>
           dec f (z f) (bs @ rest) = (None, x, rest)"
    and "concat_res (map (\<lambda>(x, f). enc f x) (zip vs fs)) = Inr bs"
  shows "decode_fields (map (\<lambda>f. (True, dec f)) fs) (map z fs) k (bs @ rest) =
           (None, k + length fs, vs, rest)"
  using assms
proof (induction fs arbitrary: vs bs k)
  case Nil
  then show ?case by simp
next
  case (Cons f fs)
  from Cons.prems(1) obtain x vs' where vs: "vs = x # vs'" and l: "length vs' = length fs"
    by (cases vs) auto
  from Cons.prems(3) vs obtain b1 bs' where e: "enc f x = Inr b1"
    and r: "concat_res (map (\<lambda>(x, f). enc f x) (zip vs' fs)) = Inr bs'" and bs: "bs = b1 @ bs'"
    by (auto split: sum.splits)
  have "dec f (z f) (b1 @ bs' @ rest) = (None, x, bs' @ rest)"
    using Cons.prems(2) e vs by simp
  moreover have "decode_fields (map (\<lambda>f. (True, dec f)) fs) (map z fs) (Suc k) (bs' @ rest) =
      (None, Suc k + length fs, vs', rest)"
    using Cons.IH [OF l _ r] Cons.prems(2) vs by simp
  ultimately show ?case by (simp add: bs vs)
qed

section \<open>Lemmas: shape by shape\<close>

lemma byte_val_val_byte: "has_type x (TUint 8) \<Longrightarrow> byte_val (val_byte x) = x"
proof (cases x)
  case (VUint w)
  assume "has_type x (TUint 8)"
  then have "unat w < 256" using VUint by (simp add: overflow_uint_iff not_le)
  then have "ucast (ucast w :: byte) = w"
    by (simp add: word_unat_eq_iff unsigned_ucast_eq take_bit_eq_mod unat_mod)
  then show ?thesis using VUint by (simp add: byte_val_def val_byte_def)
qed auto

lemma map_byte_val_val_byte:
  "list_all (\<lambda>x. has_type x (TUint 8)) vs \<Longrightarrow> map (byte_val \<circ> val_byte) vs = vs"
  by (induction vs) (auto simp: byte_val_val_byte simp del: has_type.simps)

lemma roundtrip_scalar:
  assumes "t \<in> {TBool, TInt n, TUint n, TFloat n, TBigIntPtr, TAtom, TString}"
    and "has_type v t" and "encode t v = Inr bs"
  shows "decode t (zero t) (bs @ rest) = (None, v, rest)"
  using assms
  by (auto simp: decode_bool_def decode_int_def decode_uint_def decode_float_def decode_special_def
      decode_atom_def decode_string_def store_def read_bigint_def
      read_bool_write_bool read_int_write_integer read_uint_write_integer read_float_write_float64
      read_integer_write_integer read_atom_write_atom read_string_write_string
      split: goval.splits option.splits)

lemma write_list_Inr:
  assumes "write_list rs = Inr bs" and "rs \<noteq> []"
  obtains bs' where "length rs < 2 ^ 32" and "concat_res rs = Inr bs'"
    and "bs = tag_byte EttList # nat_be 4 (length rs) @ bs' @ [tag_byte EttNil]"
  using assms by (auto simp: write_list_def split: if_splits sum.splits)

lemma roundtrip_list:
  assumes H: "\<And>x bs rest. x \<in> set vs \<Longrightarrow> encode e x = Inr bs \<Longrightarrow>
      decode e (zero e) (bs @ rest) = (None, x, rest)"
    and w: "write_list (map (encode e) vs) = Inr bs"
  shows "decode_list (decode e) False e v (bs @ rest) =
    (if vs = [] then (None, v, rest) else (None, VSlice vs, rest))"
proof (cases "vs = []")
  case True
  then have "bs = [tag_byte EttNil]" using w by (simp add: write_list_def)
  then show ?thesis using True by (simp add: decode_list_def)
next
  case False
  then obtain bs' where l: "length vs < 2 ^ 32" and c: "concat_res (map (encode e) vs) = Inr bs'"
    and bs: "bs = tag_byte EttList # nat_be 4 (length vs) @ bs' @ [tag_byte EttNil]"
    using w by (auto elim: write_list_Inr)
  have "decode_elems (decode e) (replicate (length vs) (zero e)) (bs' @ tag_byte EttNil # rest) =
      (None, vs, tag_byte EttNil # rest)"
    using decode_elems_concat [of vs "encode e" "decode e" "zero e", OF H c] by simp
  then show ?thesis using False l by (simp add: bs decode_list_def)
qed

lemma roundtrip_slice:
  assumes H: "\<And>x bs rest. x \<in> set vs \<Longrightarrow> encode e x = Inr bs \<Longrightarrow>
      decode e (zero e) (bs @ rest) = (None, x, rest)"
    and t: "list_all (\<lambda>x. has_type x e) vs"
    and w: "encode (TSlice e) (VSlice vs) = Inr bs"
  shows "decode (TSlice e) (VSlice []) (bs @ rest) = (None, VSlice vs, rest)"
proof (cases "e = TUint 8")
  case True
  then show ?thesis using w t
    by (simp add: decode_slice_def store_def read_binary_write_binary map_byte_val_val_byte
        del: has_type.simps)
next
  case False
  then show ?thesis using w roundtrip_list [of vs e bs "VSlice []" rest, OF H] by (simp add: decode_slice_def)
qed

lemma roundtrip_array:
  assumes t: "has_type (VArray vs) (TArray n e)" and r: "e = TUint 8 \<or> n = 0"
    and w: "encode (TArray n e) (VArray vs) = Inr bs"
  shows "decode (TArray n e) (zero (TArray n e)) (bs @ rest) = (None, VArray vs, rest)"
proof (cases "e = TUint 8")
  case True
  have "length vs = n" and "list_all (\<lambda>x. has_type x (TUint 8)) vs" using t True by simp_all
  then show ?thesis using w True
    by (simp add: decode_array_def read_binary_write_binary map_byte_val_val_byte)
next
  case False
  then have "vs = []" "n = 0" using r t by simp_all
  moreover from this have "bs = [tag_byte EttNil]" using w False by (simp add: write_list_def)
  ultimately show ?thesis using False by (simp add: decode_array_def decode_list_def)
qed

lemma read_tuple_header_write:
  assumes "n < 2 ^ 32"
  shows "read_tuple_header ((if n \<le> 255 then tag_byte EttSmallTuple # nat_be 1 n
      else tag_byte EttLargeTuple # nat_be 4 n) @ s) = (Inr n, s)"
  using assms by (simp add: read_tuple_header_def rd_simps del: nat_be.simps)

lemma roundtrip_struct:
  assumes H: "\<And>x f bs rest. (x, f) \<in> set (zip vs fs) \<Longrightarrow> encode (snd f) x = Inr bs \<Longrightarrow>
      decode (snd f) (zero (snd f)) (bs @ rest) = (None, x, rest)"
    and l: "length vs = length fs" and a: "list_all fst fs"
    and w: "encode (TStruct fs) (VStruct vs) = Inr bs"
  shows "decode (TStruct fs) (zero (TStruct fs)) (bs @ rest) = (None, VStruct vs, rest)"
proof -
  have "filter (\<lambda>(x, f). fst f) (zip vs fs) = zip vs fs"
    using a by (auto simp: list_all_iff filter_id_conv dest: set_zip_rightD)
  then obtain bs' where n: "length fs < 2 ^ 32"
    and c: "concat_res (map (\<lambda>(x, f). encode (snd f) x) (zip vs fs)) = Inr bs'"
    and bs: "bs = (if length fs \<le> 255 then tag_byte EttSmallTuple # nat_be 1 (length fs)
      else tag_byte EttLargeTuple # nat_be 4 (length fs)) @ bs'"
    using w l by (auto simp: write_tuple_def Let_def split: if_splits sum.splits)
  have m: "map (\<lambda>(b, t). (b, decode t)) fs = map (\<lambda>f. (True, decode (snd f))) fs"
    using a by (induction fs) auto
  have z: "fields_of (VStruct (map (\<lambda>(b, t). zero t) fs)) = map (\<lambda>f. zero (snd f)) fs"
    by (simp add: fields_of_def case_prod_beta)
  have "decode_fields (map (\<lambda>f. (True, decode (snd f))) fs) (map (\<lambda>f. zero (snd f)) fs) 0
      (bs' @ rest) = (None, 0 + length fs, vs, rest)"
    using l H c by (rule decode_fields_concat)
  then show ?thesis
    using read_tuple_header_write [OF n, of "bs' @ rest"]
    by (simp add: bs m z decode_struct_def del: nat_be.simps)
qed

section \<open>The round trip\<close>

lemma decode_encode:
  "has_type v t \<Longrightarrow> rt_type t \<Longrightarrow> encode t v = Inr bs \<Longrightarrow>
     decode t (zero t) (bs @ rest) = (None, v, rest)"
proof (induction v t arbitrary: bs rest rule: has_type.induct)
  case (12 v n e)
  then obtain vs where v: "v = VArray vs" by (cases v) auto
  have "has_type (VArray vs) (TArray n e)" and "e = TUint 8 \<or> n = 0"
    and "encode (TArray n e) (VArray vs) = Inr bs"
    using "12.prems" v by simp_all
  then show ?case unfolding v by (rule roundtrip_array)
next
  case (13 v e)
  then obtain vs where v: "v = VSlice vs" by (cases v) auto
  with "13.prems" have t: "list_all (\<lambda>x. has_type x e) vs" and r: "rt_type e" by simp_all
  have H: "decode e (zero e) (bs @ rest) = (None, x, rest)"
    if "x \<in> set vs" and "encode e x = Inr bs" for x bs rest
    using "13.IH" [OF v that(1)] t r that by (simp add: list_all_iff)
  from H t "13.prems"(3) show ?case unfolding v zero.simps by (rule roundtrip_slice)
next
  case (14 v fs)
  then obtain vs where v: "v = VStruct vs" by (cases v) auto
  with "14.prems" have l: "length vs = length fs"
    and t: "list_all (\<lambda>(x, f). has_type x (snd f)) (zip vs fs)"
    and r: "list_all (\<lambda>(b, t). b \<and> rt_type t) fs" by simp_all
  have a: "list_all fst fs" using r by (auto simp: list_all_iff)
  have H: "decode (snd f) (zero (snd f)) (bs @ rest) = (None, x, rest)"
    if "(x, f) \<in> set (zip vs fs)" and "encode (snd f) x = Inr bs" for x f bs rest
  proof -
    have "has_type x (snd f)" using t that(1) by (auto simp: list_all_iff)
    moreover have "f \<in> set fs" using that(1) by (rule set_zip_rightD)
    then have "rt_type (snd f)" using r by (auto simp: list_all_iff)
    ultimately show ?thesis using "14.IH" [OF v that(1) refl] that(2) by simp
  qed
  from H l a "14.prems"(3) show ?case unfolding v by (rule roundtrip_struct)
qed (auto simp del: decode.simps zero.simps intro: roundtrip_scalar)

end
