(* ===== verification/Spec2Isabelle.thy ===== *)
theory Spec2Isabelle
  imports Roundtrip
begin

text \<open>
  \<^bold>\<open>A verification model of the etf package (odobenus/etf): Go values to and from the
  Erlang External Term Format.\<close>

  \<^bold>\<open>The program.\<close> The repository's source under \<open>src/\<close> is the decoder
  src/_old/decode.go (\<open>Decode\<close>, \<open>decode\<close>, \<open>decodeArray\<close>, \<open>decodeList\<close>,
  \<open>decodeSlice\<close>, \<open>decodeSpecial\<close>, \<open>decodeStruct\<close>) and the encoder's test
  src/write_test.go. The decoder reads one tag byte at a time from an \<open>io.Reader\<close>,
  dispatches on the \<open>reflect\<close> kind of the destination, calls the \<open>read\<close>
  package for scalars and recurses for arrays, slices and structs, writing the
  destination in place. The \<open>read\<close> package, the \<open>types\<close> package of tag
  constants and the encoder's writers are not under \<open>src/\<close>; they are modelled
  from the spec (and, for the writers, from the sizes write_test.go expects).

  \<^bold>\<open>The library.\<close>
  \<^item> \<open>Prelude\<close>: bytes and streams; the stream reader \<open>('e, 'a) rd\<close> with
    \<open>ok\<close>, \<open>fail\<close>, \<open>bind_rd\<close>, \<open>map_rd\<close> and the collection \<open>rd_simps\<close>;
    the predicate \<open>forward\<close> (a reader only consumes); big-endian fields
    (\<open>be_nat\<close>, \<open>nat_be\<close>), little-endian bignum digits (\<open>le_nat\<close>,
    \<open>nat_le\<close>), strings as bytes, \<open>concat_res\<close>.
  \<^item> \<open>Tags\<close> (Value Model): the tag bytes \<open>tag_byte\<close> of the supported kinds
    \<open>ett\<close>, \<open>EtVersion\<close>, the classification \<open>tag_of\<close>.
  \<^item> \<open>Errors\<close> (Error Taxonomy): \<open>error\<close>, its spec kind \<open>kind_of\<close> and whether
    the Go value is \<open>discriminated\<close>.
  \<^item> \<open>Reflect\<close>: destination shapes \<open>gotype\<close> (one per case of decode.go's
    kind switch), values \<open>goval\<close>, \<open>zero\<close>, the typing \<open>has_type\<close>, and
    \<open>reflect\<close>'s range checks \<open>overflow_int\<close>, \<open>overflow_uint\<close>,
    \<open>overflow_float\<close> written as Go computes them (shifts, IEEE bit patterns).
  \<^item> \<open>Prims\<close> (Primitive Codec): \<open>read_byte\<close>, \<open>read_n\<close>, \<open>read_be\<close> (the
    \<open>io.ReadFull\<close> and \<open>binary.Read\<close> calls of decode.go) and the \<open>read\<close>
    package's \<open>read_bool\<close>, \<open>read_int\<close>, \<open>read_uint\<close>, \<open>read_float\<close>,
    \<open>read_atom\<close>, \<open>read_string\<close>, \<open>read_binary\<close>, \<open>read_bigint\<close>.
  \<^item> \<open>Encoder\<close>: \<open>write_atom\<close>, \<open>write_string\<close>, \<open>write_binary\<close>,
    \<open>write_bool\<close>, \<open>write_float64\<close>, \<open>write_integer\<close>, \<open>write_list\<close>,
    \<open>write_tuple\<close> and the type-directed \<open>encode\<close>.
  \<^item> \<open>Decoder\<close>: decode.go function by function: \<open>decode_bool\<close>,
    \<open>decode_int\<close>, \<open>decode_uint\<close>, \<open>decode_float\<close>, \<open>decode_atom\<close>,
    \<open>decode_string\<close> (the scalar cases of \<open>decode\<close>), \<open>decode_special\<close>,
    \<open>decode_array\<close>, \<open>decode_list\<close> with its element loop \<open>decode_elems\<close>,
    \<open>decode_slice\<close>, \<open>decode_struct\<close> with \<open>read_tuple_header\<close> and the field
    loop \<open>decode_fields\<close>, the dispatch \<open>decode\<close> and the entry \<open>Decode\<close>.
    Its lemmas show that every decoding function only consumes input
    (\<open>decode_forward\<close>), that decoding keeps the destination well typed
    (\<open>decode_typed\<close>), and the behaviour of each branch the code has: range
    checks, improper lists, arity errors, the tail read, the array panic, the
    partially written struct, and the accepted unknown tags.
  \<^item> \<open>Roundtrip\<close>: the shapes \<open>rt_type\<close> that decode.go can fill, the read-after-write
    laws of the loops (\<open>decode_elems_concat\<close>, \<open>decode_fields_concat\<close>) and of each
    shape, and \<open>decode_encode\<close>: decoding the encoder's bytes into a zero
    destination gives back the value. The primitive read-after-write laws
    (\<open>read_integer_write_integer\<close> and the others) are in \<open>Encoder\<close>.
  \<^item> This theory: the round trip through \<open>Decode\<close>, with the version byte.

  \<^bold>\<open>State and effects.\<close> The decoder's state is the rest of the stream and the
  destination. Each decoding function maps (destination value, stream) to (error
  option, destination value, rest of stream), so partial writes that Go performs
  before returning an error are visible in the model. A panic of \<open>reflect\<close> is the
  error \<open>Panic\<close>. All recursion is structural (on the destination type, and on the
  list of slots or fields), so every function is total: no fuel is needed.

  \<^bold>\<open>Not modelled.\<close> Memory exhaustion from a large declared length (the model
  allocates the list \<open>replicate len\<close>, Go may fail to); the rounding of a
  \<open>float32\<close> store (\<open>VFloat\<close> holds the \<open>float64\<close> given to \<open>SetFloat\<close>);
  named types other than \<open>t.Atom\<close> (a \<open>[]byte\<close> is the element shape \<open>TUint 8\<close>); the
  argument of \<open>Decode\<close> is taken to be a pointer (the model is given the shape of its
  target; a non-pointer makes \<open>Elem()\<close> panic in Go); nil and empty slices, which the
  model does not distinguish; the encoder's partial writes before an error
  (a writer returns its bytes or its error); the byte streams of \<open>io.Reader\<close>
  implementations that return short reads without error.
\<close>

section \<open>Properties that span the encoder and the decoder\<close>

text \<open>
  C1. Round trip (spec section 7): for every Go value \<open>v\<close> of a destination shape
  \<open>t\<close> that decode.go can fill, if the encoder writes \<open>v\<close> as the bytes \<open>bs\<close>, then
  \<open>Decode\<close> applied to the version byte, \<open>bs\<close> and any further stream, into a
  zero destination of shape \<open>t\<close>, succeeds, stores exactly \<open>v\<close> and stops right
  after \<open>bs\<close>.
\<close>

theorem Decode_encode_roundtrip:
  assumes "has_type v t" and "rt_type t" and "encode t v = Inr bs"
  shows "Decode t (zero t) (EtVersion # bs @ rest) = (None, v, rest)"
  using decode_encode [OF assms] by (simp add: Decode_def)

theorem Decode_encode_roundtrip_witness:
  "has_type (VStruct [VInt 300, VSlice [VAtom ''ok''], VSlice [VUint 7]])
     (TStruct [(True, TInt 16), (True, TSlice TAtom), (True, TSlice (TUint 8))]) \<and>
   rt_type (TStruct [(True, TInt 16), (True, TSlice TAtom), (True, TSlice (TUint 8))]) \<and>
   encode (TStruct [(True, TInt 16), (True, TSlice TAtom), (True, TSlice (TUint 8))])
     (VStruct [VInt 300, VSlice [VAtom ''ok''], VSlice [VUint 7]]) =
     Inr [104, 3, 98, 0, 0, 1, 44, 108, 0, 0, 0, 1, 115, 2, 111, 107, 106, 109, 0, 0, 0, 1, 7] \<and>
   Decode (TStruct [(True, TInt 16), (True, TSlice TAtom), (True, TSlice (TUint 8))])
     (zero (TStruct [(True, TInt 16), (True, TSlice TAtom), (True, TSlice (TUint 8))]))
     (EtVersion # [104, 3, 98, 0, 0, 1, 44, 108, 0, 0, 0, 1, 115, 2, 111, 107, 106, 109, 0, 0, 0, 1, 7] @ []) =
     (None, VStruct [VInt 300, VSlice [VAtom ''ok''], VSlice [VUint 7]], [])"
proof -
  have h: "has_type (VStruct [VInt 300, VSlice [VAtom ''ok''], VSlice [VUint 7]])
     (TStruct [(True, TInt 16), (True, TSlice TAtom), (True, TSlice (TUint 8))])"
    by (simp add: overflow_int_iff overflow_uint_iff)
  have r: "rt_type (TStruct [(True, TInt 16), (True, TSlice TAtom), (True, TSlice (TUint 8))])"
    by simp
  have e: "encode (TStruct [(True, TInt 16), (True, TSlice TAtom), (True, TSlice (TUint 8))])
     (VStruct [VInt 300, VSlice [VAtom ''ok''], VSlice [VUint 7]]) =
     Inr [104, 3, 98, 0, 0, 1, 44, 108, 0, 0, 0, 1, 115, 2, 111, 107, 106, 109, 0, 0, 0, 1, 7]"
    by (simp add: write_tuple_def write_integer_def write_list_def write_atom_def write_binary_def
        nat_be_numeral bytes_of_def val_byte_def)
  show ?thesis using h r e Decode_encode_roundtrip [OF h r e, of "[]"] by simp
qed

end
